theory Spec2Isabelle
  imports Complex_Main "HOL-Library.Multiset" "HOL-Library.AList"
begin

section \<open>Data model of the day planner (src/app/page.tsx)\<close>

text \<open>
  The planner is one React component. Its task list lives in the state variable
  \<open>tasks\<close>; every handler hands \<open>setTasks\<close> an updater from the previous list to the
  next one. The model below is those updaters, with the host facilities they call
  (the clock, the id generator, \<open>Date\<close> parsing and formatting, \<open>JSON\<close>) made explicit.
\<close>

record Task =
  task_id :: string
  title :: string
  task_notes :: string
  scheduledFor :: string
  completed :: bool
  notifiedAt :: "string option"
  createdAt :: string

record TemplateTask =
  tt_title :: string
  tt_notes :: string
  hour :: int
  minute :: int

record Template =
  name :: string
  description :: string
  tasks :: "TemplateTask list"

record Alert =
  alert_id :: string
  taskId :: string
  message :: string
  triggeredAt :: int

text \<open>
  A value as \<open>JSON.parse\<close> returns it. Objects keep their properties in insertion
  order, so they are association lists. A number is the value of the double that the
  parser produced (a rational; an overflowing literal is outside the model): the
  program only ever tests numbers for truthiness.
\<close>

datatype json =
  JNull
| JBool bool
| JNum rat
| JStr string
| JArr "json list"
| JObj "(string \<times> json) list"

datatype error = SyntaxError | TypeError

subsection \<open>The host\<close>

text \<open>
  Functions of the JavaScript runtime that the component calls but does not define.
  Times are milliseconds since the epoch.
  \<^item> \<open>parseDate s\<close> is \<open>new Date(s).getTime()\<close>, with \<open>None\<close> for \<open>NaN\<close>;
  \<^item> \<open>toISOString t\<close> is \<open>new Date(t).toISOString()\<close>;
  \<^item> \<open>setHours t h m\<close> is the time of \<open>d\<close> after \<open>d.setHours(h, m, 0, 0)\<close> on \<open>d = new Date(t)\<close>;
  \<^item> \<open>addDays t n\<close> is the time of \<open>d\<close> after \<open>d.setDate(d.getDate() + n)\<close>;
  \<^item> \<open>addMinutes t n\<close> is the time of \<open>d\<close> after \<open>d.setMinutes(d.getMinutes() + n)\<close>;
  \<^item> \<open>JSON_parse s\<close> is \<open>JSON.parse(s)\<close>, with \<open>None\<close> when it throws;
  \<^item> \<open>JSON_stringify v\<close> is \<open>JSON.stringify(v)\<close>.
\<close>

record host =
  parseDate :: "string \<Rightarrow> int option"
  toISOString :: "int \<Rightarrow> string"
  setHours :: "int \<Rightarrow> int \<Rightarrow> int \<Rightarrow> int"
  addDays :: "int \<Rightarrow> int \<Rightarrow> int"
  addMinutes :: "int \<Rightarrow> int \<Rightarrow> int"
  JSON_parse :: "string \<Rightarrow> json option"
  JSON_stringify :: "json \<Rightarrow> string"

text \<open>
  The clock and the id generator are read many times in one handler. A world holds what
  each successive reading returns and how many readings were taken so far.
\<close>

record world =
  clock :: "nat \<Rightarrow> int"
  reads :: nat
  idsrc :: "nat \<Rightarrow> string"
  drawn :: nat

definition Date_now :: "world \<Rightarrow> int \<times> world" where
  "Date_now w = (clock w (reads w), w\<lparr>reads := Suc (reads w)\<rparr>)"

text \<open>
  \<open>createId\<close> returns \<open>crypto.randomUUID()\<close>, or a string built from the clock and
  \<open>Math.random()\<close> where that is missing: in both branches a string supplied by the host.
\<close>

definition createId :: "world \<Rightarrow> string \<times> world" where
  "createId w = (idsrc w (drawn w), w\<lparr>drawn := Suc (drawn w)\<rparr>)"

subsection \<open>Constants\<close>

definition STORAGE_KEY :: string where
  "STORAGE_KEY = ''agentic-401dd876::tasks''"

definition ALERT_DURATION_MS :: int where
  "ALERT_DURATION_MS = 45000"

definition templates :: "Template list" where
  "templates =
    [\<lparr>name = ''Balanced Morning'',
      description = ''A gentle start with movement, planning, and breakfast.'',
      tasks =
        [\<lparr>tt_title = ''Wake up & stretch'',
          tt_notes = ''Light mobility routine to wake up your body.'', hour = 7, minute = 0\<rparr>,
         \<lparr>tt_title = ''Plan the day'',
          tt_notes = ''Review goals and top 3 priorities.'', hour = 7, minute = 20\<rparr>,
         \<lparr>tt_title = ''Healthy breakfast'',
          tt_notes = ''Keep it simple: oats or eggs + fruit.'', hour = 7, minute = 45\<rparr>]\<rparr>,
     \<lparr>name = ''Productivity Sprint'',
      description = ''Deep work blocks with reminders to move and hydrate.'',
      tasks =
        [\<lparr>tt_title = ''Deep work block #1'',
          tt_notes = ''Focus on your most important task.'', hour = 9, minute = 0\<rparr>,
         \<lparr>tt_title = ''Hydration check-in'',
          tt_notes = ''Drink a full glass of water.'', hour = 10, minute = 30\<rparr>,
         \<lparr>tt_title = ''Reset walk'',
          tt_notes = ''Step outside for a 10 minute reset.'', hour = 12, minute = 0\<rparr>]\<rparr>,
     \<lparr>name = ''Evening Wind Down'',
      description = ''Prepare tomorrow and unplug with intention.'',
      tasks =
        [\<lparr>tt_title = ''Tomorrow prep'',
          tt_notes = ''Lay out clothes & top priorities.'', hour = 20, minute = 0\<rparr>,
         \<lparr>tt_title = ''Digital sunset'',
          tt_notes = ''Screens off and switch to warm lights.'', hour = 21, minute = 0\<rparr>,
         \<lparr>tt_title = ''Gratitude journal'',
          tt_notes = ''Capture three things that went well.'', hour = 21, minute = 30\<rparr>]\<rparr>]"

subsection \<open>Strings\<close>

text \<open>
  A string is the UTF-8 text of the JavaScript string. \<open>String.prototype.trim\<close> removes
  white space and line terminators from both ends: the six one-byte characters tab, line
  feed, vertical tab, form feed, carriage return and space, the two-byte U+00A0, and the
  three-byte U+1680, U+2000 to U+200A, U+2028, U+2029, U+202F, U+205F, U+3000 and U+FEFF.
\<close>

definition isSpace1 :: "char \<Rightarrow> bool" where
  "isSpace1 a = (a = CHR 0x09 \<or> a = CHR 0x0A \<or> a = CHR 0x0B \<or> a = CHR 0x0C \<or> a = CHR 0x0D \<or> a = CHR 0x20)"

definition isSpace2 :: "char \<Rightarrow> char \<Rightarrow> bool" where
  "isSpace2 a b = (a = CHR 0xC2 \<and> b = CHR 0xA0)"

definition isSpace3 :: "char \<Rightarrow> char \<Rightarrow> char \<Rightarrow> bool" where
  "isSpace3 a b c =
     (a = CHR 0xE1 \<and> b = CHR 0x9A \<and> c = CHR 0x80
      \<or> a = CHR 0xE2 \<and> b = CHR 0x80
          \<and> ((128::nat) \<le> of_char c \<and> (of_char c :: nat) \<le> 138
               \<or> c = CHR 0xA8 \<or> c = CHR 0xA9 \<or> c = CHR 0xAF)
      \<or> a = CHR 0xE2 \<and> b = CHR 0x81 \<and> c = CHR 0x9F
      \<or> a = CHR 0xE3 \<and> b = CHR 0x80 \<and> c = CHR 0x80
      \<or> a = CHR 0xEF \<and> b = CHR 0xBB \<and> c = CHR 0xBF)"

fun trimStart :: "string \<Rightarrow> string" where
  "trimStart (a # b # c # s) =
     (if isSpace1 a then trimStart (b # c # s)
      else if isSpace2 a b then trimStart (c # s)
      else if isSpace3 a b c then trimStart s
      else a # b # c # s)"
| "trimStart [a, b] =
     (if isSpace1 a then trimStart [b] else if isSpace2 a b then [] else [a, b])"
| "trimStart [a] = (if isSpace1 a then [] else [a])"
| "trimStart [] = []"

text \<open>The same from the end, on the reversed text: the last byte comes first.\<close>

fun trimEndRev :: "string \<Rightarrow> string" where
  "trimEndRev (c # b # a # s) =
     (if isSpace1 c then trimEndRev (b # a # s)
      else if isSpace2 b c then trimEndRev (a # s)
      else if isSpace3 a b c then trimEndRev s
      else c # b # a # s)"
| "trimEndRev [c, b] =
     (if isSpace1 c then trimEndRev [b] else if isSpace2 b c then [] else [c, b])"
| "trimEndRev [c] = (if isSpace1 c then [] else [c])"
| "trimEndRev [] = []"

definition trim :: "string \<Rightarrow> string" where
  "trim s = rev (trimEndRev (rev (trimStart s)))"

text \<open>The bullet U+2022 of the alert message, as its UTF-8 bytes.\<close>

definition bullet :: string where
  "bullet = [CHR 0xE2, CHR 0x80, CHR 0xA2]"

section \<open>Loading and persisting\<close>

text \<open>JavaScript truthiness of a parsed value (\<open>!!v\<close>).\<close>

fun truthy :: "json \<Rightarrow> bool" where
  "truthy JNull = False"
| "truthy (JBool b) = b"
| "truthy (JNum n) = (n \<noteq> 0)"
| "truthy (JStr s) = (s \<noteq> [])"
| "truthy (JArr xs) = True"
| "truthy (JObj kvs) = True"

text \<open>
  \<open>v.k\<close> for the keys the loader reads (\<open>id\<close>, \<open>title\<close>, \<open>scheduledFor\<close>, \<open>notes\<close>,
  \<open>notifiedAt\<close>): \<open>None\<close> is \<open>undefined\<close>. Only an object has such a property; the
  loader never reads a property of \<open>null\<close>, which its \<open>!!task\<close> test excludes first.
\<close>

fun getProp :: "json \<Rightarrow> string \<Rightarrow> json option" where
  "getProp (JObj kvs) k = map_of kvs k"
| "getProp v k = None"

definition truthyProp :: "json \<Rightarrow> string \<Rightarrow> bool" where
  "truthyProp v k = (case getProp v k of None \<Rightarrow> False | Some x \<Rightarrow> truthy x)"

text \<open>The filter of \<open>readTasks\<close>: \<open>!!task && !!task.id && !!task.scheduledFor && !!task.title\<close>.\<close>

definition keepRecord :: "json \<Rightarrow> bool" where
  "keepRecord task =
     (truthy task \<and> truthyProp task ''id'' \<and> truthyProp task ''scheduledFor'' \<and> truthyProp task ''title'')"

text \<open>\<open>v.k ?? d\<close>: the default replaces \<open>undefined\<close> and \<open>null\<close> only.\<close>

definition nullish :: "json option \<Rightarrow> json \<Rightarrow> json" where
  "nullish v d = (case v of None \<Rightarrow> d | Some JNull \<Rightarrow> d | Some x \<Rightarrow> x)"

text \<open>
  The own properties that the spread \<open>{...task}\<close> copies. Every value that passes the
  filter is an object; the other cases are never reached by \<open>readTasks\<close>.
\<close>

fun ownProps :: "json \<Rightarrow> (string \<times> json) list" where
  "ownProps (JObj kvs) = kvs"
| "ownProps v = []"

text \<open>
  The map of \<open>readTasks\<close>:
  \<open>{...task, notes: task.notes ?? '', notifiedAt: task.notifiedAt ?? null}\<close>.
  Assigning an existing key keeps its place, a new key goes last.
\<close>

definition fillDefaults :: "json \<Rightarrow> json" where
  "fillDefaults task =
     JObj (AList.update ''notifiedAt'' (nullish (getProp task ''notifiedAt'') JNull)
            (AList.update ''notes'' (nullish (getProp task ''notes'') (JStr ''''))
              (ownProps task)))"

text \<open>
  The body of the \<open>try\<close> block: \<open>JSON.parse\<close> throws a SyntaxError on text that is not
  JSON, and \<open>parsed.filter\<close> is a TypeError unless \<open>parsed\<close> is an array.
\<close>

definition parseStored :: "host \<Rightarrow> string \<Rightarrow> error + json list" where
  "parseStored H raw =
     (case JSON_parse H raw of
        None \<Rightarrow> Inl SyntaxError
      | Some parsed \<Rightarrow>
          (case parsed of
             JArr xs \<Rightarrow> Inr (map fillDefaults (filter keepRecord xs))
           | _ \<Rightarrow> Inl TypeError))"

text \<open>
  \<open>readTasks\<close> in the browser; the argument is what
  \<open>localStorage.getItem(STORAGE_KEY)\<close> returns (\<open>None\<close> for \<open>null\<close>). The empty string is
  falsy, and the \<open>catch\<close> turns every error into the empty list.
\<close>

definition readTasks :: "host \<Rightarrow> string option \<Rightarrow> json list" where
  "readTasks H stored =
     (case stored of
        None \<Rightarrow> []
      | Some raw \<Rightarrow>
          if raw = [] then []
          else (case parseStored H raw of Inl e \<Rightarrow> [] | Inr ts \<Rightarrow> ts))"

text \<open>The object behind a value of type \<open>Task\<close>, its keys in the order of the type.\<close>

definition toJson :: "Task \<Rightarrow> json" where
  "toJson t =
     JObj [(''id'', JStr (task_id t)),
           (''title'', JStr (title t)),
           (''notes'', JStr (task_notes t)),
           (''scheduledFor'', JStr (scheduledFor t)),
           (''completed'', JBool (completed t)),
           (''notifiedAt'', (case notifiedAt t of None \<Rightarrow> JNull | Some s \<Rightarrow> JStr s)),
           (''createdAt'', JStr (createdAt t))]"

text \<open>
  At run time the state holds objects, and \<open>persistTasks\<close> hands them to
  \<open>JSON.stringify\<close> as they are: \<open>persistObjects\<close> is that write, the content of the
  storage slot after \<open>localStorage.setItem(STORAGE_KEY, JSON.stringify(nextTasks))\<close>,
  and \<open>persistTasks\<close> is it on the objects of typed tasks.
\<close>

definition persistObjects :: "host \<Rightarrow> json list \<Rightarrow> string option" where
  "persistObjects H objs = Some (JSON_stringify H (JArr objs))"

definition persistTasks :: "host \<Rightarrow> Task list \<Rightarrow> string option" where
  "persistTasks H nextTasks = persistObjects H (map toJson nextTasks)"

section \<open>Sorting\<close>

text \<open>
  The comparator of \<open>sortTasks\<close>. \<open>None\<close> is \<open>NaN\<close>: the difference of two times one of
  which did not parse.
\<close>

definition compareTasks :: "host \<Rightarrow> Task \<Rightarrow> Task \<Rightarrow> int option" where
  "compareTasks H a b =
     (if completed a \<noteq> completed b then Some (if completed a then 1 else - 1)
      else (case parseDate H (scheduledFor a) of
              None \<Rightarrow> None
            | Some x \<Rightarrow> (case parseDate H (scheduledFor b) of None \<Rightarrow> None | Some y \<Rightarrow> Some (x - y))))"

text \<open>
  \<open>Array.prototype.sort\<close> is stable and reads a \<open>NaN\<close> from the comparator as \<open>0\<close>. With a
  consistent comparator its result is the one stable arrangement, which insertion computes:
  an element moves behind exactly those that the comparator puts strictly before it.
  (Where a time does not parse the comparator is not consistent and ECMAScript leaves the
  order to the engine; the model is then one possible engine.)
\<close>

definition comesAfter :: "host \<Rightarrow> Task \<Rightarrow> Task \<Rightarrow> bool" where
  "comesAfter H a b = (case compareTasks H a b of None \<Rightarrow> False | Some v \<Rightarrow> 0 < v)"

fun insertTask :: "host \<Rightarrow> Task \<Rightarrow> Task list \<Rightarrow> Task list" where
  "insertTask H x [] = [x]"
| "insertTask H x (y # ys) = (if comesAfter H x y then y # insertTask H x ys else x # y # ys)"

definition sortTasks :: "host \<Rightarrow> Task list \<Rightarrow> Task list" where
  "sortTasks H ts = foldr (insertTask H) ts []"

section \<open>The handlers\<close>

text \<open>
  \<open>handleAddTask\<close>, from the form's three fields. The two early returns leave the state
  untouched.
\<close>

definition handleAddTask ::
  "host \<Rightarrow> string \<Rightarrow> string \<Rightarrow> string \<Rightarrow> Task list \<Rightarrow> world \<Rightarrow> Task list \<times> world" where
  "handleAddTask H formTitle formNotes formTime prev w =
     (if trim formTitle = [] \<or> formTime = [] then (prev, w)
      else (case parseDate H formTime of
              None \<Rightarrow> (prev, w)
            | Some scheduled \<Rightarrow>
                (let (i, w1) = createId w;
                     (c, w2) = Date_now w1;
                     newTask = \<lparr>task_id = i, title = trim formTitle, task_notes = trim formNotes,
                                scheduledFor = toISOString H scheduled, completed = False,
                                notifiedAt = None, createdAt = toISOString H c\<rparr>
                 in (sortTasks H (prev @ [newTask]), w2))))"

definition handleToggleComplete :: "string \<Rightarrow> Task list \<Rightarrow> Task list" where
  "handleToggleComplete i prev =
     map (\<lambda>task. if task_id task = i then task\<lparr>completed := \<not> completed task\<rparr> else task) prev"

definition handleDeleteTask :: "string \<Rightarrow> Task list \<Rightarrow> Task list" where
  "handleDeleteTask i prev = filter (\<lambda>task. task_id task \<noteq> i) prev"

text \<open>The map of \<open>handleSnoozeTask\<close>; every matching task reads the clock for itself.\<close>

fun snoozeEach :: "host \<Rightarrow> string \<Rightarrow> int \<Rightarrow> Task list \<Rightarrow> world \<Rightarrow> Task list \<times> world" where
  "snoozeEach H i minutes [] w = ([], w)"
| "snoozeEach H i minutes (task # rest) w =
     (if task_id task \<noteq> i then
        (let (rest', w') = snoozeEach H i minutes rest w in (task # rest', w'))
      else
        (let (d, w1) = Date_now w;
             newDate = addMinutes H d minutes;
             (rest', w') = snoozeEach H i minutes rest w1
         in (task\<lparr>scheduledFor := toISOString H newDate, notifiedAt := None, completed := False\<rparr>
               # rest', w')))"

text \<open>
  The default parameter of \<open>handleSnoozeTask(taskId, minutes = 5)\<close>: \<open>None\<close> is the
  omitted argument.
\<close>

definition minutesOrDefault :: "int option \<Rightarrow> int" where
  "minutesOrDefault minutes = (case minutes of None \<Rightarrow> 5 | Some m \<Rightarrow> m)"

definition handleSnoozeTask ::
  "host \<Rightarrow> string \<Rightarrow> int option \<Rightarrow> Task list \<Rightarrow> world \<Rightarrow> Task list \<times> world" where
  "handleSnoozeTask H i minutes prev w =
     (let (next, w') = snoozeEach H i (minutesOrDefault minutes) prev w
      in (sortTasks H next, w'))"

text \<open>The instant a blueprint is scheduled at, seen from \<open>now\<close>.\<close>

definition nextOccurrence :: "host \<Rightarrow> int \<Rightarrow> TemplateTask \<Rightarrow> int" where
  "nextOccurrence H now item =
     (let target = setHours H now (hour item) (minute item)
      in if target \<le> now then addDays H target 1 else target)"

fun materialize :: "host \<Rightarrow> int \<Rightarrow> TemplateTask list \<Rightarrow> world \<Rightarrow> Task list \<times> world" where
  "materialize H now [] w = ([], w)"
| "materialize H now (item # items) w =
     (let (i, w1) = createId w;
          (c, w2) = Date_now w1;
          (rest, w') = materialize H now items w2
      in (\<lparr>task_id = i, title = tt_title item, task_notes = tt_notes item,
           scheduledFor = toISOString H (nextOccurrence H now item), completed = False,
           notifiedAt = None, createdAt = toISOString H c\<rparr> # rest, w'))"

definition handleApplyTemplate :: "host \<Rightarrow> Template \<Rightarrow> Task list \<Rightarrow> world \<Rightarrow> Task list \<times> world" where
  "handleApplyTemplate H template prev w =
     (let (now, w0) = Date_now w;
          (additions, w') = materialize H now (tasks template) w0
      in (sortTasks H (prev @ additions), w'))"

text \<open>
  The state that \<open>resetDay\<close> touches: the task list and the storage slot. The second
  effect of the component, once it is hydrated, writes the list to the slot after every
  change of \<open>tasks\<close>; \<open>setTasks([])\<close> is such a change.
\<close>

record store =
  st_tasks :: "Task list"
  st_slot :: "string option"

definition resetDay :: "store \<Rightarrow> store" where
  "resetDay s = s\<lparr>st_tasks := [], st_slot := None\<rparr>"

definition persistEffect :: "host \<Rightarrow> store \<Rightarrow> store" where
  "persistEffect H s = s\<lparr>st_slot := persistTasks H (st_tasks s)\<rparr>"

section \<open>The reminder engine\<close>

definition alertMessage :: "Task \<Rightarrow> string" where
  "alertMessage task =
     trim (title task @ '' '' @ (if task_notes task \<noteq> [] then bullet @ '' '' @ task_notes task else []))"

text \<open>
  \<open>triggerNotification\<close>, as far as the state goes: the alert it hands to \<open>pushAlert\<close>.
  The native notification, the document title and the tone leave no trace in the state.
\<close>

definition triggerNotification :: "Task \<Rightarrow> world \<Rightarrow> Alert \<times> world" where
  "triggerNotification task w =
     (let (i, w1) = createId w;
          (n, w2) = Date_now w1
      in (\<lparr>alert_id = i, taskId = task_id task, message = alertMessage task, triggeredAt = n\<rparr>, w2))"

definition pushAlert :: "Alert \<Rightarrow> Alert list \<Rightarrow> Alert list" where
  "pushAlert alert prev = prev @ [alert]"

text \<open>
  The test of the tick: \<open>task.completed || task.notifiedAt\<close> skips the task (the empty
  string is falsy), and \<open>scheduled <= now\<close> is false for a time that did not parse.
\<close>

definition isDue :: "host \<Rightarrow> int \<Rightarrow> Task \<Rightarrow> bool" where
  "isDue H now task =
     (if completed task \<or> (case notifiedAt task of None \<Rightarrow> False | Some s \<Rightarrow> s \<noteq> []) then False
      else (case parseDate H (scheduledFor task) of None \<Rightarrow> False | Some scheduled \<Rightarrow> scheduled \<le> now))"

text \<open>
  The map of the tick. It returns the next list, the alerts pushed, in order, and the
  flag \<open>changed\<close>.
\<close>

fun tickEach :: "host \<Rightarrow> int \<Rightarrow> Task list \<Rightarrow> world \<Rightarrow> Task list \<times> Alert list \<times> bool \<times> world" where
  "tickEach H now [] w = ([], [], False, w)"
| "tickEach H now (task # rest) w =
     (if isDue H now task then
        (let (alert, w1) = triggerNotification task w;
             (stamp, w2) = Date_now w1;
             (rest', alerts, changed, w') = tickEach H now rest w2
         in (task\<lparr>notifiedAt := Some (toISOString H stamp)\<rparr> # rest', alert # alerts, True, w'))
      else
        (let (rest', alerts, changed, w') = tickEach H now rest w
         in (task # rest', alerts, changed, w')))"

text \<open>One tick of the interval: the updater given to \<open>setTasks\<close>, with the alerts it pushed.\<close>

definition tick :: "host \<Rightarrow> Task list \<Rightarrow> world \<Rightarrow> Task list \<times> Alert list \<times> world" where
  "tick H prev w =
     (let (now, w0) = Date_now w;
          (next, alerts, changed, w') = tickEach H now prev w0
      in ((if changed then sortTasks H next else prev), alerts, w'))"

section \<open>The canonical order\<close>

text \<open>
  The order as the specification words it: an incomplete task precedes a completed one,
  and two tasks of the same group are in ascending order of their scheduled times.
\<close>

definition inOrder :: "host \<Rightarrow> Task \<Rightarrow> Task \<Rightarrow> bool" where
  "inOrder H a b =
     (if completed a \<noteq> completed b then completed b
      else (case parseDate H (scheduledFor a) of
              None \<Rightarrow> False
            | Some x \<Rightarrow> (case parseDate H (scheduledFor b) of None \<Rightarrow> False | Some y \<Rightarrow> x \<le> y)))"

definition canonical :: "host \<Rightarrow> Task list \<Rightarrow> bool" where
  "canonical H ts = sorted_wrt (inOrder H) ts"

text \<open>The scheduled time of the task is a date for the host.\<close>

definition parses :: "host \<Rightarrow> Task \<Rightarrow> bool" where
  "parses H t = (parseDate H (scheduledFor t) \<noteq> None)"

section \<open>The stored records of the specification\<close>

text \<open>
  A well-formed task record, in the specification's words: an object whose \<open>id\<close>,
  \<open>title\<close> and \<open>scheduledFor\<close> are non-empty texts; of the optional fields, \<open>notes\<close> is a
  text when it is there and \<open>notifiedAt\<close> is a text or null when it is there.
\<close>

definition nonEmptyText :: "json option \<Rightarrow> bool" where
  "nonEmptyText v = (case v of Some (JStr s) \<Rightarrow> s \<noteq> [] | _ \<Rightarrow> False)"

definition textOrMissing :: "json option \<Rightarrow> bool" where
  "textOrMissing v = (case v of None \<Rightarrow> True | Some (JStr s) \<Rightarrow> True | _ \<Rightarrow> False)"

definition textNullOrMissing :: "json option \<Rightarrow> bool" where
  "textNullOrMissing v =
     (case v of None \<Rightarrow> True | Some JNull \<Rightarrow> True | Some (JStr s) \<Rightarrow> True | _ \<Rightarrow> False)"

definition wellFormedRecord :: "json \<Rightarrow> bool" where
  "wellFormedRecord r =
     (case r of
        JObj kvs \<Rightarrow>
          nonEmptyText (map_of kvs ''id'') \<and> nonEmptyText (map_of kvs ''title'')
          \<and> nonEmptyText (map_of kvs ''scheduledFor'')
          \<and> textOrMissing (map_of kvs ''notes'')
          \<and> textNullOrMissing (map_of kvs ''notifiedAt'')
      | _ \<Rightarrow> False)"

text \<open>
  The record with the optional fields default-filled, in the specification's words: a
  missing \<open>notes\<close> becomes the empty string, a missing \<open>notifiedAt\<close> becomes null, and
  nothing else changes.
\<close>

definition withDefaults :: "json \<Rightarrow> json" where
  "withDefaults r =
     JObj (ownProps r
           @ (if getProp r ''notes'' = None then [(''notes'', JStr '''')] else [])
           @ (if getProp r ''notifiedAt'' = None then [(''notifiedAt'', JNull)] else []))"

text \<open>
  The \<open>notifiedAt\<close> of the task is null or a non-empty text. The handlers write null or
  an ISO text, so every store that the program builds has this of all its tasks.
\<close>

definition properStamp :: "Task \<Rightarrow> bool" where
  "properStamp t = (notifiedAt t \<noteq> Some [])"

section \<open>Vocabulary of the statements\<close>

text \<open>The task as a tick marks it with the clock reading \<open>x\<close>.\<close>

definition markAt :: "host \<Rightarrow> int \<Rightarrow> Task \<Rightarrow> Task" where
  "markAt H x t = t\<lparr>notifiedAt := Some (toISOString H x)\<rparr>"

text \<open>The task as a snooze re-arms it for the instant \<open>x\<close>.\<close>

definition rearmAt :: "host \<Rightarrow> int \<Rightarrow> Task \<Rightarrow> Task" where
  "rearmAt H x t = t\<lparr>scheduledFor := toISOString H x, notifiedAt := None, completed := False\<rparr>"

section \<open>Sample inputs\<close>

text \<open>
  A host to run the model on: its local time zone is UTC, and it knows the ISO text of
  the instants of one morning and the JSON text of a few documents.
\<close>

definition isoTable :: "(string \<times> int) list" where
  "isoTable =
    [(''2024-01-01T06:50:00.000Z'', 1704091800000),
     (''2024-01-01T07:00:00.000Z'', 1704092400000),
     (''2024-01-01T07:01:00.000Z'', 1704092460000),
     (''2024-01-01T07:05:00.000Z'', 1704092700000),
     (''2024-01-01T07:06:00.000Z'', 1704092760000),
     (''2024-01-01T07:20:00.000Z'', 1704093600000),
     (''2024-01-01T07:45:00.000Z'', 1704095100000),
     (''2024-01-02T07:00:00.000Z'', 1704178800000)]"

definition stretchTask :: Task where
  "stretchTask =
     \<lparr>task_id = ''a'', title = ''Stretch'', task_notes = '''',
      scheduledFor = ''2024-01-01T07:00:00.000Z'', completed = False, notifiedAt = None,
      createdAt = ''2024-01-01T06:50:00.000Z''\<rparr>"

definition planTask :: Task where
  "planTask =
     \<lparr>task_id = ''b'', title = ''Plan the day'', task_notes = ''Top 3 priorities'',
      scheduledFor = ''2024-01-01T07:20:00.000Z'', completed = False, notifiedAt = None,
      createdAt = ''2024-01-01T06:50:00.000Z''\<rparr>"

definition storedStretch :: string where
  \<open>storedStretch = ''[{"id":"a","title":"Stretch","notes":"","scheduledFor":"2024-01-01T07:00:00.000Z","completed":false,"notifiedAt":null,"createdAt":"2024-01-01T06:50:00.000Z"}]''\<close>

definition storedPartial :: string where
  \<open>storedPartial = ''[{"id":"b","title":"Walk","scheduledFor":"2024-01-01T07:05:00.000Z"},{"title":"No id"},null]''\<close>

definition partialDoc :: json where
  "partialDoc =
     JArr [JObj [(''id'', JStr ''b''), (''title'', JStr ''Walk''),
                 (''scheduledFor'', JStr ''2024-01-01T07:05:00.000Z'')],
           JObj [(''title'', JStr ''No id'')],
           JNull]"

definition storedObject :: string where
  \<open>storedObject = ''{"a":1}''\<close>

text \<open>
  Two records as an earlier version of the program or an import could have stored them:
  the first lacks both optional fields, the second lacks \<open>notifiedAt\<close>.
\<close>

definition walkRecord :: json where
  "walkRecord =
     JObj [(''id'', JStr ''b''), (''title'', JStr ''Walk''),
           (''scheduledFor'', JStr ''2024-01-01T07:05:00.000Z'')]"

definition readRecord :: json where
  "readRecord =
     JObj [(''id'', JStr ''c''), (''title'', JStr ''Read''), (''notes'', JStr ''Chapter 2''),
           (''scheduledFor'', JStr ''2024-01-01T07:20:00.000Z'')]"

definition storedThree :: string where
  \<open>storedThree = ''[{"id":"b","title":"Walk","scheduledFor":"2024-01-01T07:05:00.000Z"},{"id":"c","title":"Read","notes":"Chapter 2","scheduledFor":"2024-01-01T07:20:00.000Z"},{"id":"a","title":"Stretch","notes":"","scheduledFor":"2024-01-01T07:00:00.000Z","completed":false,"notifiedAt":null,"createdAt":"2024-01-01T06:50:00.000Z"}]''\<close>

definition sampleHost :: host where
  "sampleHost =
     \<lparr>parseDate = map_of (isoTable @ [(''2024-01-01T07:05'', 1704092700000)]),
      toISOString = (\<lambda>t. case map_of (map (\<lambda>(s, x). (x, s)) isoTable) t of
                           None \<Rightarrow> ''1970-01-01T00:00:00.000Z'' | Some s \<Rightarrow> s),
      setHours = (\<lambda>t h m. (t div 86400000) * 86400000 + h * 3600000 + m * 60000),
      addDays = (\<lambda>t n. t + n * 86400000),
      addMinutes = (\<lambda>t n. t + n * 60000),
      JSON_parse = map_of [(storedStretch, JArr [toJson stretchTask]), (''[]'', JArr []),
                           (storedPartial, partialDoc),
                           (storedObject, JObj [(''a'', JNum 1)]),
                           (storedThree, JArr [walkRecord, readRecord, toJson stretchTask])],
      JSON_stringify = (\<lambda>v. if v = JArr [toJson stretchTask] then storedStretch
                             else if v = JArr [] then ''[]''
                             else if v = JArr [walkRecord, readRecord, toJson stretchTask]
                               then storedThree
                             else ''null'')\<rparr>"

text \<open>A world whose clock stands at \<open>t\<close> while one handler runs.\<close>

definition stillWorld :: "int \<Rightarrow> world" where
  "stillWorld t = \<lparr>clock = (\<lambda>n. t), reads = 0, idsrc = (\<lambda>n. ''id-'' @ replicate n CHR ''i''), drawn = 0\<rparr>"

text \<open>
  The first task as the tick of 07:01 marks it, the alert of that tick, and the marked
  task as a snooze at 07:01 re-arms it.
\<close>

definition notifiedStretch :: Task where
  "notifiedStretch = stretchTask\<lparr>notifiedAt := Some ''2024-01-01T07:01:00.000Z''\<rparr>"

definition stretchAlert :: Alert where
  "stretchAlert = \<lparr>alert_id = ''id-'', taskId = ''a'', message = ''Stretch'', triggeredAt = 1704092460000\<rparr>"

definition snoozedStretch :: Task where
  "snoozedStretch = notifiedStretch\<lparr>scheduledFor := ''2024-01-01T07:06:00.000Z'',
     notifiedAt := None, completed := False\<rparr>"

text \<open>
  A host in a time zone that falls back: New York on 3 November 2024, where the local
  clock goes from 02:00 (UTC-4) back to 01:00 (UTC-5) at 06:00 UTC. A \<open>Date\<close> setter works
  on the local time value, the time plus the offset in force at it, and converts the
  result back; where a local time occurs twice ECMAScript takes the earlier instant.
\<close>

definition fallBack :: int where
  "fallBack = 1730613600000"

definition easternOffset :: "int \<Rightarrow> int" where
  "easternOffset t = (if t < fallBack then - 14400000 else - 18000000)"

definition easternUTC :: "int \<Rightarrow> int" where
  "easternUTC l = (if l + 14400000 < fallBack then l + 14400000 else l + 18000000)"

definition easternTable :: "(string \<times> int) list" where
  "easternTable =
    [(''2024-11-03T05:35:00.000Z'', 1730612100000),
     (''2024-11-03T05:58:00.000Z'', 1730613480000),
     (''2024-11-03T06:03:00.000Z'', 1730613780000),
     (''2024-11-03T06:30:00.000Z'', 1730615400000),
     (''2024-11-03T06:35:00.000Z'', 1730615700000),
     (''2024-11-03T07:03:00.000Z'', 1730617380000)]"

definition easternHost :: host where
  "easternHost =
     sampleHost
     \<lparr>parseDate := map_of easternTable,
      toISOString := (\<lambda>t. case map_of (map (\<lambda>(s, x). (x, s)) easternTable) t of
                           None \<Rightarrow> ''1970-01-01T00:00:00.000Z'' | Some s \<Rightarrow> s),
      setHours := (\<lambda>t h m. easternUTC (((t + easternOffset t) div 86400000) * 86400000
                                        + h * 3600000 + m * 60000)),
      addDays := (\<lambda>t n. easternUTC (t + easternOffset t + n * 86400000)),
      addMinutes := (\<lambda>t n. easternUTC (t + easternOffset t + n * 60000))\<rparr>"

text \<open>The marked task as a snooze of 19 minutes at 07:01 re-arms it.\<close>

definition laterStretch :: Task where
  "laterStretch = notifiedStretch\<lparr>scheduledFor := ''2024-01-01T07:20:00.000Z'',
     notifiedAt := None, completed := False\<rparr>"

section \<open>Evaluating the model\<close>

text \<open>The equations that evaluate a run on the sample inputs.\<close>

lemmas sample_defs = planTask_def stretchTask_def notifiedStretch_def stretchAlert_def
  stillWorld_def sampleHost_def isoTable_def

lemmas tick_defs = tick_def Date_now_def createId_def triggerNotification_def isDue_def
  sortTasks_def comesAfter_def compareTasks_def alertMessage_def trim_def isSpace1_def isSpace2_def isSpace3_def

lemmas eastern_defs = easternHost_def easternTable_def easternUTC_def easternOffset_def
  fallBack_def

section \<open>Sorting permutes\<close>

lemma mset_insertTask: "mset (insertTask H x ys) = add_mset x (mset ys)"
  by (induction ys) auto

lemma mset_sortTasks: "mset (sortTasks H ts) = mset ts"
  by (induction ts) (auto simp: sortTasks_def mset_insertTask)

lemma set_sortTasks: "set (sortTasks H ts) = set ts"
  using mset_sortTasks [of H ts] by (metis set_mset_mset)

lemma length_sortTasks: "length (sortTasks H ts) = length ts"
  using mset_sortTasks [of H ts] by (metis size_mset)

section \<open>Operations on an id that is not in the store\<close>

lemma snoozeEach_absent: "i \<notin> task_id ` set ts \<Longrightarrow> snoozeEach H i m ts w = (ts, w)"
  by (induction ts) auto

text \<open>
  C9. When no task of the store has the id, \<open>toggleCompleted\<close> and \<open>delete\<close> return the
  list as it was, and \<open>snooze\<close> returns a sorted copy of it that holds the very same tasks
  (no task added, removed or changed) and reads neither the clock nor the id source.
\<close>

theorem absent_id_frame:
  assumes "i \<notin> task_id ` set ts"
  shows "handleToggleComplete i ts = ts \<and> handleDeleteTask i ts = ts
       \<and> handleSnoozeTask H i m ts w = (sortTasks H ts, w)
       \<and> mset (fst (handleSnoozeTask H i m ts w)) = mset ts"
proof -
  have a: "handleToggleComplete i ts = ts"
    unfolding handleToggleComplete_def using assms by (intro map_idI) auto
  have b: "handleDeleteTask i ts = ts"
    unfolding handleDeleteTask_def using assms by (intro filter_True) auto
  have c: "handleSnoozeTask H i m ts w = (sortTasks H ts, w)"
    by (simp add: handleSnoozeTask_def snoozeEach_absent [OF assms])
  show ?thesis using a b c by (simp add: mset_sortTasks)
qed

theorem absent_id_frame_witness:
  "''zz'' \<notin> task_id ` set [planTask, stretchTask]
   \<and> handleToggleComplete ''zz'' [planTask, stretchTask] = [planTask, stretchTask]
   \<and> handleDeleteTask ''zz'' [planTask, stretchTask] = [planTask, stretchTask]
   \<and> handleSnoozeTask sampleHost ''zz'' None [planTask, stretchTask] (stillWorld 1704092460000)
       = (sortTasks sampleHost [planTask, stretchTask], stillWorld 1704092460000)
   \<and> mset (fst (handleSnoozeTask sampleHost ''zz'' None [planTask, stretchTask]
                  (stillWorld 1704092460000))) = mset [planTask, stretchTask]"
proof -
  have h: "''zz'' \<notin> task_id ` set [planTask, stretchTask]"
    by (simp add: stretchTask_def planTask_def)
  show ?thesis
    using h absent_id_frame [OF h, of sampleHost None "stillWorld 1704092460000"] by blast
qed

section \<open>Loading\<close>

lemma keepRecord_obj: "keepRecord x \<Longrightarrow> \<exists>kvs. x = JObj kvs"
  by (cases x) (auto simp: keepRecord_def truthyProp_def)

lemma keepRecord_toJson:
  "keepRecord (toJson t) = (task_id t \<noteq> [] \<and> scheduledFor t \<noteq> [] \<and> title t \<noteq> [])"
  by (simp add: keepRecord_def truthyProp_def toJson_def)

lemma fillDefaults_toJson: "fillDefaults (toJson t) = toJson t"
  by (cases "notifiedAt t") (simp_all add: fillDefaults_def toJson_def nullish_def)

lemma readTasks_array:
  "raw \<noteq> [] \<Longrightarrow> JSON_parse H raw = Some (JArr xs) \<Longrightarrow>
   readTasks H (Some raw) = map fillDefaults (filter keepRecord xs)"
  by (simp add: readTasks_def parseStored_def)

lemma getProp_fillDefaults_notes:
  "getProp (fillDefaults x) ''notes'' = Some (nullish (getProp x ''notes'') (JStr ''''))"
  by (simp add: fillDefaults_def update_conv')

lemma getProp_fillDefaults_notifiedAt:
  "getProp (fillDefaults x) ''notifiedAt'' = Some (nullish (getProp x ''notifiedAt'') JNull)"
  by (simp add: fillDefaults_def update_conv')

lemma getProp_fillDefaults_other:
  "keepRecord x \<Longrightarrow> k \<noteq> ''notes'' \<Longrightarrow> k \<noteq> ''notifiedAt'' \<Longrightarrow>
   getProp (fillDefaults x) k = getProp x k"
  by (auto dest!: keepRecord_obj simp: fillDefaults_def update_conv')

lemma update_missing: "map_of al k = None \<Longrightarrow> AList.update k v al = al @ [(k, v)]"
  by (induction al) (auto split: if_splits)

lemma nonEmptyText_truthy:
  "nonEmptyText v \<Longrightarrow> (case v of None \<Rightarrow> False | Some x \<Rightarrow> truthy x)"
  by (cases v) (auto simp: nonEmptyText_def split: json.splits)

lemma wellFormedRecord_keep:
  assumes "wellFormedRecord r"
  shows "keepRecord r"
proof -
  from assms obtain kvs where r: "r = JObj kvs"
    and f: "nonEmptyText (map_of kvs ''id'')" "nonEmptyText (map_of kvs ''title'')"
      "nonEmptyText (map_of kvs ''scheduledFor'')"
    by (cases r) (simp_all add: wellFormedRecord_def)
  show ?thesis
    using f [THEN nonEmptyText_truthy] by (simp add: r keepRecord_def truthyProp_def)
qed

text \<open>On a well-formed record the map of \<open>readTasks\<close> does what the specification says.\<close>

lemma fillDefaults_wellFormed:
  assumes "wellFormedRecord r"
  shows "fillDefaults r = withDefaults r"
proof -
  from assms obtain kvs where r: "r = JObj kvs"
    and n: "textOrMissing (map_of kvs ''notes'')"
    and a: "textNullOrMissing (map_of kvs ''notifiedAt'')"
    by (cases r) (simp_all add: wellFormedRecord_def)
  define kvs1 where "kvs1 = AList.update ''notes'' (nullish (map_of kvs ''notes'') (JStr '''')) kvs"
  have k1: "kvs1 = kvs @ (if map_of kvs ''notes'' = None then [(''notes'', JStr '''')] else [])"
  proof (cases "map_of kvs ''notes''")
    case None
    then show ?thesis by (simp add: kvs1_def nullish_def update_missing)
  next
    case (Some v)
    with n obtain s where "v = JStr s" by (cases v) (simp_all add: textOrMissing_def)
    with Some show ?thesis by (simp add: kvs1_def nullish_def update_triv)
  qed
  have l1: "map_of kvs1 ''notifiedAt'' = map_of kvs ''notifiedAt''"
    by (simp add: kvs1_def update_conv')
  have "AList.update ''notifiedAt'' (nullish (map_of kvs ''notifiedAt'') JNull) kvs1
          = kvs1 @ (if map_of kvs ''notifiedAt'' = None then [(''notifiedAt'', JNull)] else [])"
  proof (cases "map_of kvs ''notifiedAt''")
    case None
    with l1 show ?thesis by (simp add: nullish_def update_missing)
  next
    case (Some v)
    with a have "v = JNull \<or> (\<exists>s. v = JStr s)"
      by (cases v) (simp_all add: textNullOrMissing_def)
    with Some l1 show ?thesis by (auto simp: nullish_def update_triv)
  qed
  then show ?thesis
    by (simp add: r fillDefaults_def withDefaults_def k1 kvs1_def [symmetric])
qed

text \<open>
  The object of a typed task is well-formed when the three required texts are not
  empty, and it has both optional fields, so its defaults change nothing.
\<close>

lemma wellFormedRecord_toJson:
  "wellFormedRecord (toJson t) = (task_id t \<noteq> [] \<and> title t \<noteq> [] \<and> scheduledFor t \<noteq> [])"
  by (cases "notifiedAt t")
     (simp_all add: wellFormedRecord_def toJson_def nonEmptyText_def textOrMissing_def
        textNullOrMissing_def)

lemma withDefaults_toJson: "withDefaults (toJson t) = toJson t"
  by (simp add: withDefaults_def toJson_def)

lemma load_persist_typed:
  assumes "JSON_parse H (JSON_stringify H (JArr (map toJson ts))) = Some (JArr (map toJson ts))"
      and "JSON_stringify H (JArr (map toJson ts)) \<noteq> []"
      and "list_all (\<lambda>t. task_id t \<noteq> [] \<and> title t \<noteq> [] \<and> scheduledFor t \<noteq> []) ts"
  shows "readTasks H (persistTasks H ts) = map toJson ts"
proof -
  have keep: "filter keepRecord (map toJson ts) = map toJson ts"
    using assms(3) by (intro filter_True) (auto simp: keepRecord_toJson list_all_iff)
  have "readTasks H (persistTasks H ts) = map fillDefaults (filter keepRecord (map toJson ts))"
    unfolding persistTasks_def persistObjects_def using assms(1,2) by (rule readTasks_array[rotated])
  also have "\<dots> = map toJson ts"
    unfolding keep by (simp add: fillDefaults_toJson)
  finally show ?thesis .
qed

text \<open>
  C3. Let every record of a list be a well-formed task record (non-empty \<open>id\<close>, \<open>title\<close>
  and \<open>scheduledFor\<close>; \<open>notes\<close> and \<open>notifiedAt\<close> may be missing), and let the host's JSON
  functions be inverse on the serialization of the list (which is not the empty text).
  Then \<open>readTasks\<close> on what was persisted returns, in the same order, each record with a
  missing \<open>notes\<close> filled with the empty string and a missing \<open>notifiedAt\<close> filled with
  null, and otherwise as it was. (For the objects of typed tasks, which lack nothing,
  this is \<open>load_persist_typed\<close>: they come back as they were.)
\<close>

theorem load_persist_roundtrip:
  assumes "JSON_parse H (JSON_stringify H (JArr rs)) = Some (JArr rs)"
      and "JSON_stringify H (JArr rs) \<noteq> []"
      and "list_all wellFormedRecord rs"
  shows "readTasks H (persistObjects H rs) = map withDefaults rs"
proof -
  have keep: "filter keepRecord rs = rs"
    using assms(3) by (intro filter_True) (auto simp: list_all_iff wellFormedRecord_keep)
  have "readTasks H (persistObjects H rs) = map fillDefaults (filter keepRecord rs)"
    unfolding persistObjects_def using assms(1,2) by (rule readTasks_array[rotated])
  also have "\<dots> = map withDefaults rs"
    unfolding keep using assms(3) by (auto simp: list_all_iff fillDefaults_wellFormed)
  finally show ?thesis .
qed

theorem load_persist_roundtrip_witness:
  "JSON_parse sampleHost (JSON_stringify sampleHost (JArr [walkRecord, readRecord, toJson stretchTask]))
     = Some (JArr [walkRecord, readRecord, toJson stretchTask])
   \<and> JSON_stringify sampleHost (JArr [walkRecord, readRecord, toJson stretchTask]) \<noteq> []
   \<and> list_all wellFormedRecord [walkRecord, readRecord, toJson stretchTask]
   \<and> readTasks sampleHost (persistObjects sampleHost [walkRecord, readRecord, toJson stretchTask])
       = [JObj [(''id'', JStr ''b''), (''title'', JStr ''Walk''),
                (''scheduledFor'', JStr ''2024-01-01T07:05:00.000Z''),
                (''notes'', JStr ''''), (''notifiedAt'', JNull)],
          JObj [(''id'', JStr ''c''), (''title'', JStr ''Read''), (''notes'', JStr ''Chapter 2''),
                (''scheduledFor'', JStr ''2024-01-01T07:20:00.000Z''),
                (''notifiedAt'', JNull)],
          toJson stretchTask]
   \<and> persistTasks sampleHost [stretchTask] = persistObjects sampleHost [toJson stretchTask]"
proof -
  have h1: "JSON_parse sampleHost (JSON_stringify sampleHost (JArr [walkRecord, readRecord, toJson stretchTask]))
     = Some (JArr [walkRecord, readRecord, toJson stretchTask])"
    by (simp add: sampleHost_def walkRecord_def readRecord_def toJson_def stretchTask_def
        storedStretch_def storedThree_def storedPartial_def storedObject_def)
  have h2: "JSON_stringify sampleHost (JArr [walkRecord, readRecord, toJson stretchTask]) \<noteq> []"
    by (simp add: sampleHost_def storedThree_def)
  have h3: "list_all wellFormedRecord [walkRecord, readRecord, toJson stretchTask]"
    by (simp add: wellFormedRecord_toJson)
       (simp add: wellFormedRecord_def walkRecord_def readRecord_def stretchTask_def
          nonEmptyText_def textOrMissing_def textNullOrMissing_def)
  have "readTasks sampleHost (persistObjects sampleHost [walkRecord, readRecord, toJson stretchTask])
          = map withDefaults [walkRecord, readRecord, toJson stretchTask]"
    using h1 h2 h3 by (rule load_persist_roundtrip)
  then have r: "readTasks sampleHost (persistObjects sampleHost [walkRecord, readRecord, toJson stretchTask])
       = [JObj [(''id'', JStr ''b''), (''title'', JStr ''Walk''),
                (''scheduledFor'', JStr ''2024-01-01T07:05:00.000Z''),
                (''notes'', JStr ''''), (''notifiedAt'', JNull)],
          JObj [(''id'', JStr ''c''), (''title'', JStr ''Read''), (''notes'', JStr ''Chapter 2''),
                (''scheduledFor'', JStr ''2024-01-01T07:20:00.000Z''),
                (''notifiedAt'', JNull)],
          toJson stretchTask]"
    by (simp add: withDefaults_toJson) (simp add: withDefaults_def walkRecord_def readRecord_def)
  have t: "persistTasks sampleHost [stretchTask] = persistObjects sampleHost [toJson stretchTask]"
    by (simp add: persistTasks_def)
  show ?thesis
    by (intro conjI) (rule h1 h2 h3 r t)+
qed

text \<open>
  C7. \<open>readTasks\<close> returns a list on every input, the empty one when the slot is absent
  or holds the empty text, when the text does not parse, and when it parses to something
  that is not an array. Of a parsed array it keeps, in order, the records that pass the
  filter, and no record that lacks \<open>id\<close>, \<open>title\<close> or \<open>scheduledFor\<close> passes. On a record
  it keeps, a missing \<open>notes\<close> becomes the empty string and a missing \<open>notifiedAt\<close>
  becomes null, a \<open>notes\<close> that is present and not null and a \<open>notifiedAt\<close> that is
  present stay as they are, and so does every other property.
\<close>

theorem readTasks_drops_and_defaults:
  "readTasks H None = []
   \<and> readTasks H (Some []) = []
   \<and> (JSON_parse H raw = None \<longrightarrow> readTasks H (Some raw) = [])
   \<and> (JSON_parse H raw = Some v \<and> (\<forall>xs. v \<noteq> JArr xs) \<longrightarrow> readTasks H (Some raw) = [])
   \<and> (raw \<noteq> [] \<and> JSON_parse H raw = Some (JArr xs) \<longrightarrow>
        readTasks H (Some raw) = map fillDefaults (filter keepRecord xs)
        \<and> (\<forall>x\<in>set xs. getProp x ''id'' = None \<or> getProp x ''title'' = None
               \<or> getProp x ''scheduledFor'' = None \<longrightarrow> \<not> keepRecord x)
        \<and> (\<forall>x\<in>set xs. keepRecord x \<longrightarrow>
              (getProp x ''notes'' = None \<longrightarrow> getProp (fillDefaults x) ''notes'' = Some (JStr ''''))
            \<and> (getProp x ''notifiedAt'' = None \<longrightarrow> getProp (fillDefaults x) ''notifiedAt'' = Some JNull)
            \<and> (\<forall>y. y \<noteq> JNull \<and> getProp x ''notes'' = Some y \<longrightarrow> getProp (fillDefaults x) ''notes'' = Some y)
            \<and> (\<forall>y. getProp x ''notifiedAt'' = Some y \<longrightarrow> getProp (fillDefaults x) ''notifiedAt'' = Some y)
            \<and> (\<forall>k. k \<noteq> ''notes'' \<and> k \<noteq> ''notifiedAt'' \<longrightarrow> getProp (fillDefaults x) k = getProp x k)))"
proof -
  have a: "readTasks H None = []" "readTasks H (Some []) = []"
    by (simp_all add: readTasks_def)
  have b: "JSON_parse H raw = None \<Longrightarrow> readTasks H (Some raw) = []"
    by (simp add: readTasks_def parseStored_def)
  have c: "JSON_parse H raw = Some v \<Longrightarrow> (\<forall>xs. v \<noteq> JArr xs) \<Longrightarrow> readTasks H (Some raw) = []"
    by (cases v) (simp_all add: readTasks_def parseStored_def)
  have d: "getProp x ''id'' = None \<or> getProp x ''title'' = None \<or> getProp x ''scheduledFor'' = None
      \<Longrightarrow> \<not> keepRecord x" for x
    by (auto simp: keepRecord_def truthyProp_def)
  have e: "getProp x ''notes'' = None \<Longrightarrow> getProp (fillDefaults x) ''notes'' = Some (JStr '''')" for x
    by (simp add: getProp_fillDefaults_notes nullish_def)
  have f: "getProp x ''notifiedAt'' = None \<Longrightarrow> getProp (fillDefaults x) ''notifiedAt'' = Some JNull" for x
    by (simp add: getProp_fillDefaults_notifiedAt nullish_def)
  have g: "y \<noteq> JNull \<Longrightarrow> getProp x ''notes'' = Some y \<Longrightarrow> getProp (fillDefaults x) ''notes'' = Some y" for x y
    by (cases y) (simp_all add: getProp_fillDefaults_notes nullish_def)
  have h: "getProp x ''notifiedAt'' = Some y \<Longrightarrow> getProp (fillDefaults x) ''notifiedAt'' = Some y" for x y
    by (cases y) (simp_all add: getProp_fillDefaults_notifiedAt nullish_def)
  show ?thesis
    using a b c d e f g h readTasks_array getProp_fillDefaults_other by blast
qed

theorem readTasks_drops_and_defaults_witness:
  "JSON_parse sampleHost ''oops'' = None
   \<and> readTasks sampleHost (Some ''oops'') = []
   \<and> JSON_parse sampleHost storedObject = Some (JObj [(''a'', JNum 1)])
   \<and> readTasks sampleHost (Some storedObject) = []
   \<and> storedPartial \<noteq> []
   \<and> JSON_parse sampleHost storedPartial = Some partialDoc
   \<and> readTasks sampleHost (Some storedPartial)
       = [JObj [(''id'', JStr ''b''), (''title'', JStr ''Walk''),
                (''scheduledFor'', JStr ''2024-01-01T07:05:00.000Z''),
                (''notes'', JStr ''''), (''notifiedAt'', JNull)]]"
proof -
  have p1: "JSON_parse sampleHost ''oops'' = None"
    by (simp add: sampleHost_def storedStretch_def storedPartial_def storedObject_def
        storedThree_def)
  have p2: "JSON_parse sampleHost storedObject = Some (JObj [(''a'', JNum 1)])"
    by (simp add: sampleHost_def storedStretch_def storedPartial_def storedObject_def
        storedThree_def)
  have p3: "storedPartial \<noteq> []"
    by (simp add: storedPartial_def)
  have p4: "JSON_parse sampleHost storedPartial
              = Some (JArr [JObj [(''id'', JStr ''b''), (''title'', JStr ''Walk''),
                                  (''scheduledFor'', JStr ''2024-01-01T07:05:00.000Z'')],
                            JObj [(''title'', JStr ''No id'')], JNull])"
    by (simp add: sampleHost_def storedStretch_def storedPartial_def partialDoc_def)
  have r1: "readTasks sampleHost (Some ''oops'') = []"
    using p1 readTasks_drops_and_defaults [of sampleHost "''oops''"] by blast
  have r2: "readTasks sampleHost (Some storedObject) = []"
    using p2 readTasks_drops_and_defaults [of sampleHost storedObject "JObj [(''a'', JNum 1)]"]
    by blast
  have "readTasks sampleHost (Some storedPartial)
          = map fillDefaults (filter keepRecord
              [JObj [(''id'', JStr ''b''), (''title'', JStr ''Walk''),
                     (''scheduledFor'', JStr ''2024-01-01T07:05:00.000Z'')],
               JObj [(''title'', JStr ''No id'')], JNull])"
    using p3 p4 readTasks_drops_and_defaults [of sampleHost storedPartial] by blast
  then have r3: "readTasks sampleHost (Some storedPartial)
       = [JObj [(''id'', JStr ''b''), (''title'', JStr ''Walk''),
                (''scheduledFor'', JStr ''2024-01-01T07:05:00.000Z''),
                (''notes'', JStr ''''), (''notifiedAt'', JNull)]]"
    by (simp add: keepRecord_def truthyProp_def fillDefaults_def nullish_def)
  show ?thesis
    using p1 p2 p3 p4 r1 r2 r3 by (simp add: partialDoc_def)
qed

section \<open>Reset\<close>

text \<open>
  C8. \<open>resetDay\<close> on any store leaves an empty task list and an erased slot, on which
  \<open>readTasks\<close> returns the empty list. The change of \<open>tasks\<close> then runs the persisting
  effect, which writes the serialization of the empty list into the slot; on a host that
  parses this text back to the empty array, \<open>readTasks\<close> returns the empty list then too.
\<close>

theorem resetDay_clears:
  "st_tasks (resetDay s) = [] \<and> st_slot (resetDay s) = None
   \<and> readTasks H (st_slot (resetDay s)) = []
   \<and> (JSON_parse H (JSON_stringify H (JArr [])) = Some (JArr []) \<longrightarrow>
        st_tasks (persistEffect H (resetDay s)) = []
        \<and> readTasks H (st_slot (persistEffect H (resetDay s))) = [])"
  by (simp add: resetDay_def persistEffect_def persistTasks_def persistObjects_def readTasks_def
      parseStored_def)

theorem resetDay_clears_witness:
  "JSON_parse sampleHost (JSON_stringify sampleHost (JArr [])) = Some (JArr [])
   \<and> st_tasks (resetDay \<lparr>st_tasks = [stretchTask], st_slot = Some storedStretch\<rparr>) = []
   \<and> st_slot (resetDay \<lparr>st_tasks = [stretchTask], st_slot = Some storedStretch\<rparr>) = None
   \<and> readTasks sampleHost
        (st_slot (resetDay \<lparr>st_tasks = [stretchTask], st_slot = Some storedStretch\<rparr>)) = []
   \<and> readTasks sampleHost
        (st_slot (persistEffect sampleHost
           (resetDay \<lparr>st_tasks = [stretchTask], st_slot = Some storedStretch\<rparr>))) = []"
proof -
  have h: "JSON_parse sampleHost (JSON_stringify sampleHost (JArr [])) = Some (JArr [])"
    by (simp add: sampleHost_def storedStretch_def toJson_def)
  show ?thesis
    using h resetDay_clears [of "\<lparr>st_tasks = [stretchTask], st_slot = Some storedStretch\<rparr>" sampleHost]
    by blast
qed

section \<open>Adding a task\<close>

lemma trim_Nil: "trim [] = []"
  by (simp add: trim_def)

text \<open>
  C6. On a host for which the empty text is no date: when trimming the title leaves
  nothing (the title is empty or white space only) or the time does not parse,
  \<open>handleAddTask\<close> returns the task list and the world as they were. Otherwise the new
  list holds the tasks of the old one and exactly one more, which is incomplete, not
  notified, and carries the trimmed title and notes and the parsed time.
\<close>

theorem add_validation:
  assumes "parseDate H [] = None"
  shows "(trim formTitle = [] \<or> parseDate H formTime = None \<longrightarrow>
            handleAddTask H formTitle formNotes formTime prev w = (prev, w))
       \<and> (trim formTitle \<noteq> [] \<and> parseDate H formTime \<noteq> None \<longrightarrow>
            (\<exists>newTask. mset (fst (handleAddTask H formTitle formNotes formTime prev w))
                          = add_mset newTask (mset prev)
               \<and> length (fst (handleAddTask H formTitle formNotes formTime prev w)) = Suc (length prev)
               \<and> \<not> completed newTask \<and> notifiedAt newTask = None
               \<and> title newTask = trim formTitle \<and> task_notes newTask = trim formNotes
               \<and> Some (scheduledFor newTask) = map_option (toISOString H) (parseDate H formTime)))"
proof (intro conjI impI)
  assume "trim formTitle = [] \<or> parseDate H formTime = None"
  then show "handleAddTask H formTitle formNotes formTime prev w = (prev, w)"
    by (auto simp: handleAddTask_def)
next
  assume ok: "trim formTitle \<noteq> [] \<and> parseDate H formTime \<noteq> None"
  then obtain s where s: "parseDate H formTime = Some s" by auto
  with assms have ne: "formTime \<noteq> []" by auto
  from ok have tt: "trim formTitle \<noteq> []" by simp
  define newTask where "newTask = \<lparr>task_id = idsrc w (drawn w), title = trim formTitle,
      task_notes = trim formNotes, scheduledFor = toISOString H s, completed = False,
      notifiedAt = None, createdAt = toISOString H (clock w (reads w))\<rparr>"
  have run: "fst (handleAddTask H formTitle formNotes formTime prev w) = sortTasks H (prev @ [newTask])"
    using tt s ne by (simp add: handleAddTask_def createId_def Date_now_def newTask_def)
  have m: "mset (fst (handleAddTask H formTitle formNotes formTime prev w)) = add_mset newTask (mset prev)"
    unfolding run by (simp add: mset_sortTasks)
  have "length (fst (handleAddTask H formTitle formNotes formTime prev w)) = Suc (length prev)"
    unfolding run by (simp add: length_sortTasks)
  with m s show "\<exists>newTask. mset (fst (handleAddTask H formTitle formNotes formTime prev w))
                          = add_mset newTask (mset prev)
               \<and> length (fst (handleAddTask H formTitle formNotes formTime prev w)) = Suc (length prev)
               \<and> \<not> completed newTask \<and> notifiedAt newTask = None
               \<and> title newTask = trim formTitle \<and> task_notes newTask = trim formNotes
               \<and> Some (scheduledFor newTask) = map_option (toISOString H) (parseDate H formTime)"
    by (intro exI [of _ newTask]) (simp add: newTask_def)
qed

theorem add_validation_witness:
  "parseDate sampleHost [] = None
   \<and> trim ''   '' = []
   \<and> handleAddTask sampleHost ''   '' ''n'' ''2024-01-01T07:05'' [stretchTask] (stillWorld 1704091800000)
        = ([stretchTask], stillWorld 1704091800000)
   \<and> parseDate sampleHost ''soon'' = None
   \<and> handleAddTask sampleHost ''Walk'' [] ''soon'' [stretchTask] (stillWorld 1704091800000)
        = ([stretchTask], stillWorld 1704091800000)
   \<and> trim '' Walk '' \<noteq> []
   \<and> parseDate sampleHost ''2024-01-01T07:05'' \<noteq> None
   \<and> (\<exists>newTask.
         mset (fst (handleAddTask sampleHost '' Walk '' ''  '' ''2024-01-01T07:05'' [stretchTask]
                      (stillWorld 1704091800000))) = add_mset newTask (mset [stretchTask])
         \<and> length (fst (handleAddTask sampleHost '' Walk '' ''  '' ''2024-01-01T07:05'' [stretchTask]
                      (stillWorld 1704091800000))) = Suc (length [stretchTask])
         \<and> \<not> completed newTask \<and> notifiedAt newTask = None
         \<and> title newTask = trim '' Walk '' \<and> task_notes newTask = trim ''  ''
         \<and> Some (scheduledFor newTask)
             = map_option (toISOString sampleHost) (parseDate sampleHost ''2024-01-01T07:05''))"
proof -
  have h: "parseDate sampleHost [] = None"
    by (simp add: sampleHost_def isoTable_def)
  have a: "trim ''   '' = []"
    by (simp add: trim_def isSpace1_def)
  have b: "parseDate sampleHost ''soon'' = None"
    by (simp add: sampleHost_def isoTable_def)
  have c: "trim '' Walk '' \<noteq> []"
    by (simp add: trim_def isSpace1_def isSpace2_def isSpace3_def)
  have d: "parseDate sampleHost ''2024-01-01T07:05'' \<noteq> None"
    by (simp add: sampleHost_def isoTable_def)
  show ?thesis
    using h a b c d
      add_validation [OF h, of "''   ''" "''2024-01-01T07:05''" "''n''" "[stretchTask]" "stillWorld 1704091800000"]
      add_validation [OF h, of "''Walk''" "''soon''" "[]" "[stretchTask]" "stillWorld 1704091800000"]
      add_validation [OF h, of "'' Walk ''" "''2024-01-01T07:05''" "''  ''" "[stretchTask]" "stillWorld 1704091800000"]
    by blast
qed

section \<open>The reminder tick\<close>

lemma tickEach_props:
  "tickEach H now ts w = (next, alerts, changed, w') \<Longrightarrow>
     clock w' = clock w \<and> reads w \<le> reads w'
     \<and> list_all2 (\<lambda>t t'. if isDue H now t
          then (\<exists>k. reads w \<le> k \<and> k < reads w' \<and> t' = markAt H (clock w k) t)
          else t' = t) ts next
     \<and> map taskId alerts = map task_id (filter (isDue H now) ts)
     \<and> changed = list_ex (isDue H now) ts"
proof (induction ts arbitrary: w "next" alerts changed w')
  case Nil
  then show ?case by simp
next
  case (Cons t ts)
  show ?case
  proof (cases "isDue H now t")
    case False
    with Cons.prems obtain rest where
      run: "tickEach H now ts w = (rest, alerts, changed, w')" and nx: "next = t # rest"
      by (auto split: prod.splits)
    from Cons.IH [OF run] False nx show ?thesis by simp
  next
    case True
    define w2 where "w2 = w\<lparr>drawn := Suc (drawn w), reads := Suc (Suc (reads w))\<rparr>"
    from True Cons.prems obtain rest als ch where
      run: "tickEach H now ts w2 = (rest, als, ch, w')"
      and nx: "next = markAt H (clock w (Suc (reads w))) t # rest"
      and al: "alerts = \<lparr>alert_id = idsrc w (drawn w), taskId = task_id t,
                 message = alertMessage t, triggeredAt = clock w (reads w)\<rparr> # als"
      and ch: "changed"
      by (auto simp: triggerNotification_def createId_def Date_now_def w2_def markAt_def
          split: prod.splits)
    have w2: "clock w2 = clock w" "reads w2 = Suc (Suc (reads w))"
      by (simp_all add: w2_def)
    from Cons.IH [OF run, unfolded w2] have ih:
      "clock w' = clock w" "Suc (Suc (reads w)) \<le> reads w'"
      "list_all2 (\<lambda>t t'. if isDue H now t
          then (\<exists>k. Suc (Suc (reads w)) \<le> k \<and> k < reads w' \<and> t' = markAt H (clock w k) t)
          else t' = t) ts rest"
      "map taskId als = map task_id (filter (isDue H now) ts)"
      by blast+
    have tl: "list_all2 (\<lambda>t t'. if isDue H now t
          then (\<exists>k. reads w \<le> k \<and> k < reads w' \<and> t' = markAt H (clock w k) t)
          else t' = t) ts rest"
      using ih(3)
    proof (rule list_all2_mono)
      fix x y
      assume a: "if isDue H now x
          then (\<exists>k. Suc (Suc (reads w)) \<le> k \<and> k < reads w' \<and> y = markAt H (clock w k) x)
          else y = x"
      show "if isDue H now x
          then (\<exists>k. reads w \<le> k \<and> k < reads w' \<and> y = markAt H (clock w k) x)
          else y = x"
      proof (cases "isDue H now x")
        case True
        with a obtain k where "Suc (Suc (reads w)) \<le> k" "k < reads w'" "y = markAt H (clock w k) x"
          by auto
        then have "reads w \<le> k \<and> k < reads w' \<and> y = markAt H (clock w k) x" by simp
        with True show ?thesis by auto
      next
        case False
        with a show ?thesis by simp
      qed
    qed
    have hd: "\<exists>k. reads w \<le> k \<and> k < reads w' \<and>
        markAt H (clock w (Suc (reads w))) t = markAt H (clock w k) t"
      using ih(2) by (intro exI [of _ "Suc (reads w)"]) simp
    show ?thesis
      using True ih(1,2,4) tl hd nx al ch by simp
  qed
qed

text \<open>What one tick does, in one statement.\<close>

lemma tick_props:
  assumes "tick H prev w = (out, alerts, w')"
  shows "\<exists>next. list_all2 (\<lambda>t t'. if isDue H (clock w (reads w)) t
              then (\<exists>k. Suc (reads w) \<le> k \<and> k < reads w' \<and> t' = markAt H (clock w k) t)
              else t' = t) prev next
          \<and> mset out = mset next
          \<and> (\<not> list_ex (isDue H (clock w (reads w))) prev \<longrightarrow> out = prev)
          \<and> map taskId alerts = map task_id (filter (isDue H (clock w (reads w))) prev)
          \<and> clock w' = clock w"
proof -
  define now where "now = clock w (reads w)"
  define w0 where "w0 = w\<lparr>reads := Suc (reads w)\<rparr>"
  obtain "next" changed where
    run: "tickEach H now prev w0 = (next, alerts, changed, w')"
    and out: "out = (if changed then sortTasks H next else prev)"
    using assms by (auto simp: tick_def Date_now_def now_def w0_def split: prod.splits)
  have w0: "clock w0 = clock w" "reads w0 = Suc (reads w)"
    by (simp_all add: w0_def)
  from tickEach_props [OF run, unfolded w0] have p:
    "clock w' = clock w"
    "list_all2 (\<lambda>t t'. if isDue H now t
          then (\<exists>k. Suc (reads w) \<le> k \<and> k < reads w' \<and> t' = markAt H (clock w k) t)
          else t' = t) prev next"
    "map taskId alerts = map task_id (filter (isDue H now) prev)"
    "changed = list_ex (isDue H now) prev"
    by blast+
  have same: "next = prev" if "\<not> changed"
  proof -
    from that p(4) have nd: "\<And>t. t \<in> set prev \<Longrightarrow> \<not> isDue H now t"
      by (simp add: list_ex_iff)
    have "list_all2 (\<lambda>t t'. t = t') prev next"
      using p(2) by (rule list.rel_mono_strong) (simp add: nd)
    then have "prev = next" by (simp add: list_all2_eq [symmetric])
    then show ?thesis by simp
  qed
  have m: "mset out = mset next"
    using same out by (cases changed) (simp_all add: mset_sortTasks)
  have u: "\<not> list_ex (isDue H now) prev \<longrightarrow> out = prev"
    using p(4) out by simp
  show ?thesis
    using p(1,2,3) m u unfolding now_def by blast
qed

text \<open>
  Each alert of a tick goes through \<open>pushAlert\<close>, which appends it: the active alerts
  after the tick are those before it followed by the alerts of the tick, in order. (Their
  removal 45 seconds later is a timer and not part of the tick.)
\<close>

lemma pushAlert_all: "foldl (\<lambda>active a. pushAlert a active) active alerts = active @ alerts"
  by (induction alerts arbitrary: active) (simp_all add: pushAlert_def)

lemma list_all2_left: "list_all2 R xs ys \<Longrightarrow> x \<in> set xs \<Longrightarrow> \<exists>y\<in>set ys. R x y"
  by (induction rule: list_all2_induct) auto

lemma list_all2_right: "list_all2 R xs ys \<Longrightarrow> y \<in> set ys \<Longrightarrow> \<exists>x\<in>set xs. R x y"
  by (induction rule: list_all2_induct) auto



lemma task_id_markAt [simp]: "task_id (markAt H x t) = task_id t"
  by (simp add: markAt_def)





text \<open>
  No handler writes an empty \<open>notifiedAt\<close>: a store whose stamps are null or non-empty
  texts keeps that under every operation (under a tick, on a host that prints no instant
  as the empty text). A falsy \<open>notifiedAt\<close> other than null can only come from storage
  that something else than the program wrote.
\<close>

lemma properStamp_sortTasks: "list_all properStamp (sortTasks H ts) = list_all properStamp ts"
  by (simp add: list_all_iff set_sortTasks)

lemma properStamp_toggle:
  "list_all properStamp ts \<Longrightarrow> list_all properStamp (handleToggleComplete i ts)"
  by (auto simp: list_all_iff handleToggleComplete_def properStamp_def)

lemma properStamp_delete:
  "list_all properStamp ts \<Longrightarrow> list_all properStamp (handleDeleteTask i ts)"
  by (auto simp: list_all_iff handleDeleteTask_def)

lemma properStamp_add:
  "list_all properStamp ts \<Longrightarrow>
   list_all properStamp (fst (handleAddTask H formTitle formNotes formTime ts w))"
  by (auto simp: handleAddTask_def properStamp_sortTasks properStamp_def createId_def Date_now_def
      split: option.splits prod.splits)

lemma properStamp_snoozeEach:
  "list_all properStamp ts \<Longrightarrow> list_all properStamp (fst (snoozeEach H i m ts w))"
proof (induction ts arbitrary: w)
  case Nil
  then show ?case by simp
next
  case (Cons t ts)
  then have ih: "list_all properStamp (fst (snoozeEach H i m ts w0))" for w0 by simp
  obtain r1 w1 where e1: "snoozeEach H i m ts w = (r1, w1)"
    by (cases "snoozeEach H i m ts w")
  obtain r2 w2 where e2: "snoozeEach H i m ts (w\<lparr>reads := Suc (reads w)\<rparr>) = (r2, w2)"
    by (cases "snoozeEach H i m ts (w\<lparr>reads := Suc (reads w)\<rparr>)")
  from ih [of w] e1 have p1: "list_all properStamp r1" by simp
  from ih [of "w\<lparr>reads := Suc (reads w)\<rparr>"] e2 have p2: "list_all properStamp r2" by simp
  from Cons.prems have pt: "properStamp t" by simp
  have pn: "properStamp (t\<lparr>scheduledFor := x, notifiedAt := None, completed := False\<rparr>)" for x
    by (simp add: properStamp_def)
  show ?case
    using p1 p2 pt pn e1 e2 by (simp add: Date_now_def)
qed

lemma properStamp_snooze:
  "list_all properStamp ts \<Longrightarrow> list_all properStamp (fst (handleSnoozeTask H i minutes ts w))"
  using properStamp_snoozeEach [of ts H i "minutesOrDefault minutes" w]
  by (auto simp: handleSnoozeTask_def properStamp_sortTasks split: prod.splits)

lemma properStamp_materialize:
  "list_all properStamp (fst (materialize H now items w))"
proof (induction items arbitrary: w)
  case Nil
  then show ?case by simp
next
  case (Cons item items)
  define w2 where "w2 = w\<lparr>drawn := Suc (drawn w), reads := Suc (reads w)\<rparr>"
  obtain r2 w3 where e: "materialize H now items w2 = (r2, w3)"
    by (cases "materialize H now items w2")
  from Cons.IH [of w2] e have p2: "list_all properStamp r2" by simp
  have pn: "properStamp \<lparr>task_id = a, title = b, task_notes = c, scheduledFor = d,
      completed = False, notifiedAt = None, createdAt = g\<rparr>" for a b c d g
    by (simp add: properStamp_def)
  from e p2 pn show ?case
    by (simp add: createId_def Date_now_def w2_def)
qed

lemma properStamp_applyTemplate:
  "list_all properStamp ts \<Longrightarrow> list_all properStamp (fst (handleApplyTemplate H template ts w))"
  using properStamp_materialize [of H "clock w (reads w)" "tasks template" "w\<lparr>reads := Suc (reads w)\<rparr>"]
  by (auto simp: handleApplyTemplate_def properStamp_sortTasks Date_now_def split: prod.splits)

lemma properStamp_tick:
  assumes "list_all properStamp ts" and "\<forall>k. toISOString H (clock w k) \<noteq> []"
  shows "list_all properStamp (fst (tick H ts w))"
proof -
  obtain out alerts w' where run: "tick H ts w = (out, alerts, w')"
    by (cases "tick H ts w")
  from tick_props [OF run] obtain "next" where
    r: "list_all2 (\<lambda>t t'. if isDue H (clock w (reads w)) t
              then (\<exists>k. Suc (reads w) \<le> k \<and> k < reads w' \<and> t' = markAt H (clock w k) t)
              else t' = t) ts next"
    and m: "mset out = mset next"
    by blast
  have "properStamp u" if "u \<in> set next" for u
  proof -
    from list_all2_right [OF r that] obtain v where v: "v \<in> set ts"
      and st: "if isDue H (clock w (reads w)) v
              then (\<exists>k. Suc (reads w) \<le> k \<and> k < reads w' \<and> u = markAt H (clock w k) v)
              else u = v"
      by blast
    show ?thesis
    proof (cases "isDue H (clock w (reads w)) v")
      case True
      with st obtain k where "u = markAt H (clock w k) v" by auto
      with assms(2) show ?thesis by (simp add: properStamp_def markAt_def)
    next
      case False
      with st v assms(1) show ?thesis by (simp add: list_all_iff)
    qed
  qed
  moreover have "set out = set next" using m by (rule mset_eq_setD)
  ultimately show ?thesis by (simp add: run list_all_iff)
qed

lemma isDue_null_stamp:
  "isDue H n t \<Longrightarrow> properStamp t \<Longrightarrow> \<not> completed t \<and> notifiedAt t = None"
  by (auto simp: isDue_def properStamp_def split: option.splits if_splits)

text \<open>
  C10. Let every task of the store have a \<open>notifiedAt\<close> that is null or a non-empty
  text, as every store that the program builds has. Then the list after a tick holds, up
  to the order, the tasks of the list before it, each either untouched or with nothing
  but \<open>notifiedAt\<close> changed, from null to the ISO text of a clock reading of this tick,
  on a task that was incomplete. The length does not change, and when no task is due the
  list is returned as it was, unsorted, and no alert is pushed.
\<close>

theorem tick_frame:
  assumes "tick H prev w = (out, alerts, w')"
      and "list_all properStamp prev"
  shows "(\<exists>next. mset out = mset next
            \<and> list_all2 (\<lambda>t t'. t' = t
                 \<or> (\<not> completed t \<and> notifiedAt t = None
                     \<and> (\<exists>k. reads w < k \<and> k < reads w'
                            \<and> t' = t\<lparr>notifiedAt := Some (toISOString H (clock w k))\<rparr>))) prev next)
       \<and> length out = length prev
       \<and> (\<not> list_ex (isDue H (clock w (reads w))) prev \<longrightarrow> out = prev \<and> alerts = [])"
proof -
  from tick_props [OF assms(1)] obtain "next" where
    r: "list_all2 (\<lambda>t t'. if isDue H (clock w (reads w)) t
              then (\<exists>k. Suc (reads w) \<le> k \<and> k < reads w' \<and> t' = markAt H (clock w k) t)
              else t' = t) prev next"
    and m: "mset out = mset next"
    and u: "\<not> list_ex (isDue H (clock w (reads w))) prev \<longrightarrow> out = prev"
    and a: "map taskId alerts = map task_id (filter (isDue H (clock w (reads w))) prev)"
    by blast
  have r': "list_all2 (\<lambda>t t'. t' = t
                 \<or> (\<not> completed t \<and> notifiedAt t = None
                     \<and> (\<exists>k. reads w < k \<and> k < reads w'
                            \<and> t' = t\<lparr>notifiedAt := Some (toISOString H (clock w k))\<rparr>))) prev next"
    using r
  proof (rule list.rel_mono_strong)
    fix x y
    assume x: "x \<in> set prev"
    assume st: "if isDue H (clock w (reads w)) x
              then (\<exists>k. Suc (reads w) \<le> k \<and> k < reads w' \<and> y = markAt H (clock w k) x)
              else y = x"
    from x assms(2) have px: "properStamp x" by (simp add: list_all_iff)
    show "y = x \<or> (\<not> completed x \<and> notifiedAt x = None
                     \<and> (\<exists>k. reads w < k \<and> k < reads w'
                            \<and> y = x\<lparr>notifiedAt := Some (toISOString H (clock w k))\<rparr>))"
    proof (cases "isDue H (clock w (reads w)) x")
      case True
      with st obtain k where "Suc (reads w) \<le> k" "k < reads w'" "y = markAt H (clock w k) x"
        by auto
      then have "reads w < k \<and> k < reads w'
          \<and> y = x\<lparr>notifiedAt := Some (toISOString H (clock w k))\<rparr>"
        by (simp add: markAt_def)
      with isDue_null_stamp [OF True px] show ?thesis by blast
    next
      case False
      with st show ?thesis by simp
    qed
  qed
  have l: "length out = length prev"
    using m list_all2_lengthD [OF r] by (metis size_mset)
  have e: "alerts = []" if "\<not> list_ex (isDue H (clock w (reads w))) prev"
  proof -
    from that have "filter (isDue H (clock w (reads w))) prev = []"
      by (simp add: list_ex_iff filter_empty_conv)
    with a show ?thesis by simp
  qed
  show ?thesis
    using m r' l u e by blast
qed

theorem tick_frame_witness:
  "tick sampleHost [planTask, stretchTask] (stillWorld 1704092460000)
     = ([notifiedStretch, planTask], [stretchAlert],
        (stillWorld 1704092460000)\<lparr>reads := 3, drawn := 1\<rparr>)
   \<and> list_all properStamp [planTask, stretchTask]
   \<and> length [notifiedStretch, planTask] = length [planTask, stretchTask]
   \<and> tick sampleHost [planTask, notifiedStretch] (stillWorld 1704092460000)
     = ([planTask, notifiedStretch], [], (stillWorld 1704092460000)\<lparr>reads := 1\<rparr>)
   \<and> list_all properStamp [planTask, notifiedStretch]
   \<and> \<not> list_ex (isDue sampleHost (clock (stillWorld 1704092460000) (reads (stillWorld 1704092460000))))
          [planTask, notifiedStretch]
   \<and> (\<exists>next. mset [notifiedStretch, planTask] = mset next
         \<and> list_all2 (\<lambda>t t'. t' = t
               \<or> (\<not> completed t \<and> notifiedAt t = None
                   \<and> (\<exists>k. reads (stillWorld 1704092460000) < k
                          \<and> k < reads ((stillWorld 1704092460000)\<lparr>reads := 3, drawn := 1\<rparr>)
                          \<and> t' = t\<lparr>notifiedAt := Some (toISOString sampleHost
                                     (clock (stillWorld 1704092460000) k))\<rparr>)))
             [planTask, stretchTask] next)"
proof -
  have h1: "tick sampleHost [planTask, stretchTask] (stillWorld 1704092460000)
     = ([notifiedStretch, planTask], [stretchAlert],
        (stillWorld 1704092460000)\<lparr>reads := 3, drawn := 1\<rparr>)"
    by (simp add: tick_defs sample_defs)
  have p1: "list_all properStamp [planTask, stretchTask]"
    by (simp add: properStamp_def sample_defs)
  have h2: "tick sampleHost [planTask, notifiedStretch] (stillWorld 1704092460000)
     = ([planTask, notifiedStretch], [], (stillWorld 1704092460000)\<lparr>reads := 1\<rparr>)"
    by (simp add: tick_defs sample_defs)
  have p2: "list_all properStamp [planTask, notifiedStretch]"
    by (simp add: properStamp_def sample_defs)
  have h3: "\<not> list_ex (isDue sampleHost (clock (stillWorld 1704092460000) (reads (stillWorld 1704092460000))))
          [planTask, notifiedStretch]"
    by (simp add: isDue_def sample_defs)
  note c1 = tick_frame [OF h1 p1, THEN conjunct1]
  note c2 = tick_frame [OF h1 p1, THEN conjunct2, THEN conjunct1]
  show ?thesis
    by (intro conjI) (rule h1 h2 h3 p1 p2 c1 c2)+
qed

section \<open>Snoozing\<close>

lemma snoozeEach_props:
  "snoozeEach H i m ts w = (next, w') \<Longrightarrow>
     clock w' = clock w \<and> reads w \<le> reads w'
     \<and> list_all2 (\<lambda>t t'. if task_id t = i
          then (\<exists>k. reads w \<le> k \<and> k < reads w' \<and> t' = rearmAt H (addMinutes H (clock w k) m) t)
          else t' = t) ts next"
proof (induction ts arbitrary: w "next" w')
  case Nil
  then show ?case by simp
next
  case (Cons t ts)
  show ?case
  proof (cases "task_id t = i")
    case False
    with Cons.prems obtain rest where
      run: "snoozeEach H i m ts w = (rest, w')" and nx: "next = t # rest"
      by (auto split: prod.splits)
    from Cons.IH [OF run] False nx show ?thesis by simp
  next
    case True
    define w1 where "w1 = w\<lparr>reads := Suc (reads w)\<rparr>"
    from True Cons.prems obtain rest where
      run: "snoozeEach H i m ts w1 = (rest, w')"
      and nx: "next = rearmAt H (addMinutes H (clock w (reads w)) m) t # rest"
      by (auto simp: Date_now_def w1_def rearmAt_def split: prod.splits)
    have w1: "clock w1 = clock w" "reads w1 = Suc (reads w)"
      by (simp_all add: w1_def)
    from Cons.IH [OF run, unfolded w1] have ih:
      "clock w' = clock w" "Suc (reads w) \<le> reads w'"
      "list_all2 (\<lambda>t t'. if task_id t = i
          then (\<exists>k. Suc (reads w) \<le> k \<and> k < reads w' \<and> t' = rearmAt H (addMinutes H (clock w k) m) t)
          else t' = t) ts rest"
      by blast+
    have tl: "list_all2 (\<lambda>t t'. if task_id t = i
          then (\<exists>k. reads w \<le> k \<and> k < reads w' \<and> t' = rearmAt H (addMinutes H (clock w k) m) t)
          else t' = t) ts rest"
      using ih(3)
    proof (rule list_all2_mono)
      fix x y
      assume a: "if task_id x = i
          then (\<exists>k. Suc (reads w) \<le> k \<and> k < reads w' \<and> y = rearmAt H (addMinutes H (clock w k) m) x)
          else y = x"
      show "if task_id x = i
          then (\<exists>k. reads w \<le> k \<and> k < reads w' \<and> y = rearmAt H (addMinutes H (clock w k) m) x)
          else y = x"
      proof (cases "task_id x = i")
        case True
        with a obtain k where "Suc (reads w) \<le> k" "k < reads w'"
          "y = rearmAt H (addMinutes H (clock w k) m) x"
          by auto
        then have "reads w \<le> k \<and> k < reads w' \<and> y = rearmAt H (addMinutes H (clock w k) m) x"
          by simp
        with True show ?thesis by auto
      next
        case False
        with a show ?thesis by simp
      qed
    qed
    have hd: "\<exists>k. reads w \<le> k \<and> k < reads w' \<and>
        rearmAt H (addMinutes H (clock w (reads w)) m) t = rearmAt H (addMinutes H (clock w k) m) t"
      using ih(2) by (intro exI [of _ "reads w"]) simp
    show ?thesis
      using True ih(1,2) tl hd nx by simp
  qed
qed

lemma isDue_rearmAt:
  "parseDate H (toISOString H x) = Some x \<Longrightarrow> isDue H n (rearmAt H x t) = (x \<le> n)"
  by (simp add: isDue_def rearmAt_def)

text \<open>
  What \<open>handleSnoozeTask\<close> does on every host that parses its own ISO texts back: the
  store then holds the task with \<open>scheduledFor\<close> the ISO text of the instant that the
  host's \<open>setMinutes(getMinutes() + minutes)\<close> makes of a reading of the clock (five
  minutes when the argument is omitted, the argument otherwise), \<open>notifiedAt\<close> null
  and \<open>completed\<close> false, its other fields as they were; and every task of that id in
  the store is incomplete, not notified, and due at an instant exactly when that new
  scheduled instant has been reached.
\<close>

lemma snooze_rearms:
  assumes run: "handleSnoozeTask H i minutes prev w = (out, w')"
      and t: "t \<in> set prev" "task_id t = i"
      and m: "m = (case minutes of None \<Rightarrow> 5 | Some n \<Rightarrow> n)"
      and rt: "\<forall>k. parseDate H (toISOString H (addMinutes H (clock w k) m))
                        = Some (addMinutes H (clock w k) m)"
  shows "(\<exists>k. reads w \<le> k \<and> k < reads w'
            \<and> t\<lparr>scheduledFor := toISOString H (addMinutes H (clock w k) m),
                  notifiedAt := None, completed := False\<rparr> \<in> set out)
       \<and> (\<forall>u\<in>set out. task_id u = i \<longrightarrow>
             \<not> completed u \<and> notifiedAt u = None
             \<and> (\<exists>k. reads w \<le> k \<and> k < reads w'
                  \<and> scheduledFor u = toISOString H (addMinutes H (clock w k) m)
                  \<and> (\<forall>now. isDue H now u = (addMinutes H (clock w k) m \<le> now))))"
proof -
  have md: "minutesOrDefault minutes = m"
    by (simp add: m minutesOrDefault_def)
  obtain "next" where
    ev: "snoozeEach H i m prev w = (next, w')" and out: "out = sortTasks H next"
    using run by (auto simp: handleSnoozeTask_def md split: prod.splits)
  from snoozeEach_props [OF ev] have
    r: "list_all2 (\<lambda>t t'. if task_id t = i
          then (\<exists>k. reads w \<le> k \<and> k < reads w' \<and> t' = rearmAt H (addMinutes H (clock w k) m) t)
          else t' = t) prev next"
    by blast
  have so: "set out = set next" by (simp add: out set_sortTasks)
  have first: "\<exists>k. reads w \<le> k \<and> k < reads w'
            \<and> t\<lparr>scheduledFor := toISOString H (addMinutes H (clock w k) m),
                  notifiedAt := None, completed := False\<rparr> \<in> set out"
  proof -
    from list_all2_left [OF r t(1)] t(2) obtain k where
      "reads w \<le> k" "k < reads w'" "rearmAt H (addMinutes H (clock w k) m) t \<in> set next"
      by auto
    with so show ?thesis by (auto simp: rearmAt_def)
  qed
  have second: "\<not> completed u \<and> notifiedAt u = None
             \<and> (\<exists>k. reads w \<le> k \<and> k < reads w'
                  \<and> scheduledFor u = toISOString H (addMinutes H (clock w k) m)
                  \<and> (\<forall>now. isDue H now u = (addMinutes H (clock w k) m \<le> now)))"
    if u: "u \<in> set out" "task_id u = i" for u
  proof -
    from u(1) so have "u \<in> set next" by simp
    from list_all2_right [OF r this] obtain v where
      st: "if task_id v = i
          then (\<exists>k. reads w \<le> k \<and> k < reads w' \<and> u = rearmAt H (addMinutes H (clock w k) m) v)
          else u = v"
      by blast
    have "task_id v = i"
      using st u(2) by (auto simp: rearmAt_def split: if_splits)
    with st obtain k where k: "reads w \<le> k" "k < reads w'"
      and uk: "u = rearmAt H (addMinutes H (clock w k) m) v"
      by auto
    have "\<forall>now. isDue H now u = (addMinutes H (clock w k) m \<le> now)"
      unfolding uk using rt by (simp add: isDue_rearmAt)
    moreover have "\<not> completed u \<and> notifiedAt u = None
        \<and> scheduledFor u = toISOString H (addMinutes H (clock w k) m)"
      unfolding uk by (simp add: rearmAt_def)
    ultimately show ?thesis using k by blast
  qed
  show ?thesis using first second by blast
qed

text \<open>On the host in UTC the new instant is the clock plus the minutes: 5, and 19.\<close>

lemma snooze_rearms_sample:
  "handleSnoozeTask sampleHost ''a'' None [notifiedStretch, planTask] (stillWorld 1704092460000)
     = ([snoozedStretch, planTask], (stillWorld 1704092460000)\<lparr>reads := 1\<rparr>)
   \<and> notifiedStretch \<in> set [notifiedStretch, planTask]
   \<and> task_id notifiedStretch = ''a''
   \<and> (5::int) = (case (None :: int option) of None \<Rightarrow> 5 | Some n \<Rightarrow> n)
   \<and> (\<forall>k. parseDate sampleHost (toISOString sampleHost
               (addMinutes sampleHost (clock (stillWorld 1704092460000) k) 5))
             = Some (addMinutes sampleHost (clock (stillWorld 1704092460000) k) 5))
   \<and> (\<exists>k. reads (stillWorld 1704092460000) \<le> k
          \<and> k < reads ((stillWorld 1704092460000)\<lparr>reads := 1\<rparr>)
          \<and> notifiedStretch\<lparr>scheduledFor := toISOString sampleHost
                  (addMinutes sampleHost (clock (stillWorld 1704092460000) k) 5),
                notifiedAt := None, completed := False\<rparr> \<in> set [snoozedStretch, planTask])
   \<and> isDue sampleHost 1704092760000 snoozedStretch
   \<and> \<not> isDue sampleHost 1704092700000 snoozedStretch
   \<and> handleSnoozeTask sampleHost ''a'' (Some 19) [notifiedStretch] (stillWorld 1704092460000)
     = ([laterStretch], (stillWorld 1704092460000)\<lparr>reads := 1\<rparr>)
   \<and> (19::int) = (case Some 19 of None \<Rightarrow> 5 | Some n \<Rightarrow> n)
   \<and> (\<exists>k. reads (stillWorld 1704092460000) \<le> k
          \<and> k < reads ((stillWorld 1704092460000)\<lparr>reads := 1\<rparr>)
          \<and> notifiedStretch\<lparr>scheduledFor := toISOString sampleHost
                  (addMinutes sampleHost (clock (stillWorld 1704092460000) k) 19),
                notifiedAt := None, completed := False\<rparr> \<in> set [laterStretch])"
proof -
  have h1: "handleSnoozeTask sampleHost ''a'' None [notifiedStretch, planTask] (stillWorld 1704092460000)
     = ([snoozedStretch, planTask], (stillWorld 1704092460000)\<lparr>reads := 1\<rparr>)"
    by (simp add: handleSnoozeTask_def minutesOrDefault_def snoozedStretch_def tick_defs sample_defs)
  have h2: "notifiedStretch \<in> set [notifiedStretch, planTask]"
    by simp
  have h3: "task_id notifiedStretch = ''a''"
    by (simp add: sample_defs)
  have h4: "(5::int) = (case (None :: int option) of None \<Rightarrow> 5 | Some n \<Rightarrow> n)"
    by simp
  have h5: "\<forall>k. parseDate sampleHost (toISOString sampleHost
               (addMinutes sampleHost (clock (stillWorld 1704092460000) k) 5))
             = Some (addMinutes sampleHost (clock (stillWorld 1704092460000) k) 5)"
    by (simp add: sample_defs)
  note c = snooze_rearms [OF h1 h2 h3 h4 h5, THEN conjunct1]
  have d1: "isDue sampleHost 1704092760000 snoozedStretch"
    by (simp add: isDue_def snoozedStretch_def sample_defs)
  have d2: "\<not> isDue sampleHost 1704092700000 snoozedStretch"
    by (simp add: isDue_def snoozedStretch_def sample_defs)
  have g1: "handleSnoozeTask sampleHost ''a'' (Some 19) [notifiedStretch] (stillWorld 1704092460000)
     = ([laterStretch], (stillWorld 1704092460000)\<lparr>reads := 1\<rparr>)"
    by (simp add: handleSnoozeTask_def minutesOrDefault_def laterStretch_def tick_defs sample_defs)
  have g2: "notifiedStretch \<in> set [notifiedStretch]"
    by simp
  have g4: "(19::int) = (case Some 19 of None \<Rightarrow> 5 | Some n \<Rightarrow> n)"
    by simp
  have g5: "\<forall>k. parseDate sampleHost (toISOString sampleHost
               (addMinutes sampleHost (clock (stillWorld 1704092460000) k) 19))
             = Some (addMinutes sampleHost (clock (stillWorld 1704092460000) k) 19)"
    by (simp add: sample_defs)
  note e = snooze_rearms [OF g1 g2 h3 g4 g5, THEN conjunct1]
  show ?thesis
    by (intro conjI) (rule h1 h2 h3 h4 h5 c d1 d2 g1 g4 e)+
qed

text \<open>
  C5 fails where the local clock falls back. In New York at 05:58 UTC on 3 November 2024
  (01:58 local, UTC-4) \<open>setMinutes(getMinutes() + 5)\<close> asks for 02:03 local, which by then
  is UTC-5: the task is scheduled for 07:03 UTC, 65 minutes ahead, where the current
  instant plus five minutes is 06:03 UTC. At 06:30 UTC (01:30 local, UTC-5) it asks for
  01:35 local, which occurs twice, and the earlier one is taken: the task is scheduled for
  05:35 UTC, 55 minutes in the past, and is due at once. The buttons of the view read
  \<open>Snooze 5 min\<close> and its help text \<open>push a task 5 minutes ahead\<close>.
\<close>

theorem snooze_across_fall_back:
  "handleSnoozeTask easternHost ''a'' None [notifiedStretch] (stillWorld 1730613480000)
     = ([notifiedStretch\<lparr>scheduledFor := ''2024-11-03T07:03:00.000Z'', notifiedAt := None,
                          completed := False\<rparr>],
        (stillWorld 1730613480000)\<lparr>reads := 1\<rparr>)
   \<and> toISOString easternHost (1730613480000 + 5 * 60000) = ''2024-11-03T06:03:00.000Z''
   \<and> handleSnoozeTask easternHost ''a'' None [notifiedStretch] (stillWorld 1730615400000)
     = ([notifiedStretch\<lparr>scheduledFor := ''2024-11-03T05:35:00.000Z'', notifiedAt := None,
                          completed := False\<rparr>],
        (stillWorld 1730615400000)\<lparr>reads := 1\<rparr>)
   \<and> toISOString easternHost (1730615400000 + 5 * 60000) = ''2024-11-03T06:35:00.000Z''
   \<and> isDue easternHost 1730615400000
        (notifiedStretch\<lparr>scheduledFor := ''2024-11-03T05:35:00.000Z'', notifiedAt := None,
                          completed := False\<rparr>)"
  by (simp add: handleSnoozeTask_def minutesOrDefault_def tick_defs sample_defs eastern_defs)

section \<open>Applying a template\<close>

lemma materialize_props:
  "materialize H now items w = (adds, w') \<Longrightarrow>
     list_all2 (\<lambda>item a. title a = tt_title item \<and> task_notes a = tt_notes item
                  \<and> scheduledFor a = toISOString H (nextOccurrence H now item)
                  \<and> \<not> completed a \<and> notifiedAt a = None) items adds"
proof (induction items arbitrary: w adds w')
  case Nil
  then show ?case by simp
next
  case (Cons item items)
  from Cons.prems obtain a rest w2 where
    "materialize H now items w2 = (rest, w')" "adds = a # rest"
    "title a = tt_title item \<and> task_notes a = tt_notes item
       \<and> scheduledFor a = toISOString H (nextOccurrence H now item)
       \<and> \<not> completed a \<and> notifiedAt a = None"
    by (auto simp: createId_def Date_now_def split: prod.splits)
  with Cons.IH show ?case by simp
qed

text \<open>
  C4. After \<open>handleApplyTemplate\<close> the store holds the tasks it held before, unchanged,
  and one new task for each blueprint of the template, in addition: the new task of a
  blueprint has its title and notes, is incomplete and not notified, and is scheduled at
  the blueprint's hour and minute of the day of \<open>now\<close> when that instant is later than
  \<open>now\<close>, and one day after it otherwise.
\<close>

theorem applyTemplate_appends:
  "\<exists>additions.
      mset (fst (handleApplyTemplate H template prev w)) = mset prev + mset additions
    \<and> length additions = length (tasks template)
    \<and> list_all2 (\<lambda>item a.
          title a = tt_title item \<and> task_notes a = tt_notes item
        \<and> scheduledFor a = toISOString H
            (if clock w (reads w) < setHours H (clock w (reads w)) (hour item) (minute item)
             then setHours H (clock w (reads w)) (hour item) (minute item)
             else addDays H (setHours H (clock w (reads w)) (hour item) (minute item)) 1)
        \<and> \<not> completed a \<and> notifiedAt a = None) (tasks template) additions"
proof -
  let ?now = "clock w (reads w)"
  obtain adds w' where
    ev: "materialize H ?now (tasks template) (w\<lparr>reads := Suc (reads w)\<rparr>) = (adds, w')"
    by (cases "materialize H ?now (tasks template) (w\<lparr>reads := Suc (reads w)\<rparr>)")
  then have run: "fst (handleApplyTemplate H template prev w) = sortTasks H (prev @ adds)"
    by (simp add: handleApplyTemplate_def Date_now_def)
  have occ: "nextOccurrence H ?now item
      = (if ?now < setHours H ?now (hour item) (minute item)
         then setHours H ?now (hour item) (minute item)
         else addDays H (setHours H ?now (hour item) (minute item)) 1)" for item
    by (simp add: nextOccurrence_def Let_def)
  from materialize_props [OF ev] have
    r: "list_all2 (\<lambda>item a. title a = tt_title item \<and> task_notes a = tt_notes item
                  \<and> scheduledFor a = toISOString H (nextOccurrence H ?now item)
                  \<and> \<not> completed a \<and> notifiedAt a = None) (tasks template) adds" .
  have "mset (fst (handleApplyTemplate H template prev w)) = mset prev + mset adds"
    unfolding run by (simp add: mset_sortTasks)
  moreover have "length adds = length (tasks template)"
    using list_all2_lengthD [OF r] by simp
  ultimately show ?thesis
    using r unfolding occ by blast
qed

theorem applyTemplate_appends_witness:
  "fst (handleApplyTemplate sampleHost (hd templates) [stretchTask] (stillWorld 1704092460000))
     = [stretchTask,
        \<lparr>task_id = ''id-i'', title = ''Plan the day'',
          task_notes = ''Review goals and top 3 priorities.'',
          scheduledFor = ''2024-01-01T07:20:00.000Z'', completed = False,
          notifiedAt = None, createdAt = ''2024-01-01T07:01:00.000Z''\<rparr>,
        \<lparr>task_id = ''id-ii'', title = ''Healthy breakfast'',
          task_notes = ''Keep it simple: oats or eggs + fruit.'',
          scheduledFor = ''2024-01-01T07:45:00.000Z'', completed = False,
          notifiedAt = None, createdAt = ''2024-01-01T07:01:00.000Z''\<rparr>,
        \<lparr>task_id = ''id-'', title = ''Wake up & stretch'',
          task_notes = ''Light mobility routine to wake up your body.'',
          scheduledFor = ''2024-01-02T07:00:00.000Z'', completed = False,
          notifiedAt = None, createdAt = ''2024-01-01T07:01:00.000Z''\<rparr>]
   \<and> (\<exists>additions.
         mset (fst (handleApplyTemplate sampleHost (hd templates) [stretchTask]
                      (stillWorld 1704092460000))) = mset [stretchTask] + mset additions
       \<and> length additions = length (tasks (hd templates)))"
proof -
  have e: "fst (handleApplyTemplate sampleHost (hd templates) [stretchTask] (stillWorld 1704092460000))
     = [stretchTask,
        \<lparr>task_id = ''id-i'', title = ''Plan the day'',
          task_notes = ''Review goals and top 3 priorities.'',
          scheduledFor = ''2024-01-01T07:20:00.000Z'', completed = False,
          notifiedAt = None, createdAt = ''2024-01-01T07:01:00.000Z''\<rparr>,
        \<lparr>task_id = ''id-ii'', title = ''Healthy breakfast'',
          task_notes = ''Keep it simple: oats or eggs + fruit.'',
          scheduledFor = ''2024-01-01T07:45:00.000Z'', completed = False,
          notifiedAt = None, createdAt = ''2024-01-01T07:01:00.000Z''\<rparr>,
        \<lparr>task_id = ''id-'', title = ''Wake up & stretch'',
          task_notes = ''Light mobility routine to wake up your body.'',
          scheduledFor = ''2024-01-02T07:00:00.000Z'', completed = False,
          notifiedAt = None, createdAt = ''2024-01-01T07:01:00.000Z''\<rparr>]"
    by (simp add: handleApplyTemplate_def nextOccurrence_def templates_def tick_defs sample_defs)
  from applyTemplate_appends [of sampleHost "hd templates" "[stretchTask]" "stillWorld 1704092460000"]
  have c: "\<exists>additions.
         mset (fst (handleApplyTemplate sampleHost (hd templates) [stretchTask]
                      (stillWorld 1704092460000))) = mset [stretchTask] + mset additions
       \<and> length additions = length (tasks (hd templates))"
    by blast
  show ?thesis
    by (intro conjI) (rule e c)+
qed

section \<open>The canonical order after an operation\<close>

text \<open>
  Where every scheduled time parses, \<open>sortTasks\<close> returns a list in canonical order, so
  the handlers that end in \<open>sortTasks\<close> establish the order; \<open>handleDeleteTask\<close> keeps it.
\<close>

lemma inOrder_trans:
  "parses H b \<Longrightarrow> inOrder H a b \<Longrightarrow> inOrder H b c \<Longrightarrow> inOrder H a c"
  by (auto simp: inOrder_def parses_def split: if_splits option.splits)

lemma not_comesAfter_inOrder:
  "parses H a \<Longrightarrow> parses H b \<Longrightarrow> \<not> comesAfter H a b \<Longrightarrow> inOrder H a b"
  by (auto simp: inOrder_def comesAfter_def compareTasks_def parses_def split: if_splits)

lemma comesAfter_inOrder:
  "comesAfter H a b \<Longrightarrow> inOrder H b a"
  by (auto simp: inOrder_def comesAfter_def compareTasks_def split: if_splits option.splits)

lemma set_insertTask: "set (insertTask H x ys) = insert x (set ys)"
  using mset_insertTask [of H x ys] by (metis set_mset_add_mset_insert set_mset_mset)

lemma canonical_insertTask:
  "parses H x \<Longrightarrow> list_all (parses H) ys \<Longrightarrow> canonical H ys \<Longrightarrow> canonical H (insertTask H x ys)"
proof (induction ys)
  case Nil
  then show ?case by (simp add: canonical_def)
next
  case (Cons y ys)
  show ?case
  proof (cases "comesAfter H x y")
    case True
    from Cons have "canonical H (insertTask H x ys)" by (simp add: canonical_def)
    moreover have "inOrder H y z" if "z \<in> set (insertTask H x ys)" for z
      using that Cons.prems(3) comesAfter_inOrder [OF True]
      by (auto simp: set_insertTask canonical_def)
    ultimately show ?thesis using True by (simp add: canonical_def)
  next
    case False
    with Cons.prems have xy: "inOrder H x y"
      by (intro not_comesAfter_inOrder) simp_all
    have "inOrder H x z" if "z \<in> set ys" for z
    proof -
      from that Cons.prems(3) have "inOrder H y z" by (simp add: canonical_def)
      with xy Cons.prems(2) show ?thesis by (auto intro: inOrder_trans)
    qed
    with xy Cons.prems(3) False show ?thesis by (auto simp: canonical_def)
  qed
qed

lemma canonical_sortTasks: "list_all (parses H) ts \<Longrightarrow> canonical H (sortTasks H ts)"
proof (induction ts)
  case Nil
  then show ?case by (simp add: sortTasks_def canonical_def)
next
  case (Cons t ts)
  then have "canonical H (sortTasks H ts)" by simp
  moreover have "list_all (parses H) (sortTasks H ts)"
    using Cons.prems by (simp add: list_all_iff set_sortTasks)
  ultimately have "canonical H (insertTask H t (sortTasks H ts))"
    using Cons.prems by (intro canonical_insertTask) simp_all
  then show ?case by (simp add: sortTasks_def)
qed

lemma canonical_handleDeleteTask: "canonical H ts \<Longrightarrow> canonical H (handleDeleteTask i ts)"
  by (simp add: canonical_def handleDeleteTask_def sorted_wrt_filter)

text \<open>
  C2 fails for \<open>toggleCompleted\<close>. The two sample tasks are in canonical order; completing
  the first one leaves it in front of the second, which is still incomplete, because
  \<open>handleToggleComplete\<close> is the one updater that maps over the list without handing the
  result to \<open>sortTasks\<close>. Sorting the result would have moved the completed task behind.
\<close>

theorem toggle_leaves_unsorted:
  "canonical sampleHost [stretchTask, planTask]
   \<and> handleToggleComplete ''a'' [stretchTask, planTask]
       = [stretchTask\<lparr>completed := True\<rparr>, planTask]
   \<and> \<not> canonical sampleHost (handleToggleComplete ''a'' [stretchTask, planTask])
   \<and> sortTasks sampleHost (handleToggleComplete ''a'' [stretchTask, planTask])
       = [planTask, stretchTask\<lparr>completed := True\<rparr>]"
  by (simp add: canonical_def inOrder_def handleToggleComplete_def tick_defs sample_defs)

end
